theory Spec2Isabelle
  imports Main "HOL-Library.Word"
begin

unbundle bit_operations_syntax

section \<open>The environment of \<^verbatim>\<open>server_epoll.cpp\<close>\<close>

text \<open>
  The program is a single-threaded epoll reactor. Everything it does beyond computing is
  a system call or a write to \<^verbatim>\<open>std::cout\<close>; the model records both, in program
  order, in a trace of events. What the operating system answers is an input of the
  model: the results of the start-up calls are the fields of \<open>os_env\<close>, the results of
  the calls made inside the loops are queues, consumed one entry per call.
\<close>

text \<open>Constants of the system headers (Linux, x86-64); the repository does not define them.\<close>

definition SIGHUP :: int where "SIGHUP = 1"
definition SIGTERM :: int where "SIGTERM = 15"
definition EAGAIN :: int where "EAGAIN = 11"
definition EWOULDBLOCK :: int where "EWOULDBLOCK = 11"
definition O_NONBLOCK :: int where "O_NONBLOCK = 2048"
definition INADDR_ANY :: int where "INADDR_ANY = 0"
definition SOMAXCONN :: int where "SOMAXCONN = 4096"

text \<open>\<^verbatim>\<open>sizeof(signalfd_siginfo)\<close>.\<close>

definition sizeof_si :: int where "sizeof_si = 128"

text \<open>One item inserted into \<^verbatim>\<open>std::cout\<close> with \<^verbatim>\<open><<\<close>: a string or a number.\<close>

datatype tok = S string | N int

definition nl :: string where "nl = [CHR 0x0A]"

datatype event =
    SysClose int
  | SysFcntlGetfl int
  | SysFcntlSetfl int int
  | SysEpollCreate1
  | SysEpollCtlAdd int int
  | SysEpollCtlDel int int
  | SysEpollWait int
  | SysSigprocmaskBlock "int list"
  | SysSignalfd "int list"
  | SysRead int
  | SysSocket
  | SysSetsockoptReuseaddr int
  | SysBind int int "16 word"
  | SysListen int int
  | SysAccept int int
  | SysRecv int int
  | Print "tok list"

record os_env =
  signalfd_ret :: int
  socket_ret :: int
  setsockopt_ret :: int
  bind_ret :: int
  listen_ret :: int
  epoll_create1_ret :: int
  fcntl_getfl_ret :: "int \<Rightarrow> int"

text \<open>
  The answers inside the loops: \<open>read_q\<close> holds, per \<^verbatim>\<open>read\<close> on the signalfd, the
  returned length and the \<^verbatim>\<open>ssi_signo\<close> it stored; \<open>accept_q\<close> the results of
  \<^verbatim>\<open>accept\<close>; \<open>recv_q\<close> the results of \<^verbatim>\<open>recv\<close> with the \<^verbatim>\<open>errno\<close> left behind.
\<close>

record queues =
  read_q :: "(int \<times> 32 word) list"
  accept_q :: "int list"
  recv_q :: "(int \<times> int) list"

section \<open>\<^verbatim>\<open>sys::set_nonblock\<close>\<close>

definition set_nonblock :: "(int \<Rightarrow> int) \<Rightarrow> int \<Rightarrow> event list \<Rightarrow> event list" where
  "set_nonblock getfl fd tr =
     (let flags = getfl fd
      in tr @ [SysFcntlGetfl fd, SysFcntlSetfl fd (flags OR O_NONBLOCK)])"

section \<open>\<^verbatim>\<open>sys::UniqueFd\<close>\<close>

datatype UniqueFd = UniqueFd (ufd: int)

definition UniqueFd_default :: UniqueFd where
  "UniqueFd_default = UniqueFd (- 1)"

definition UniqueFd_get :: "UniqueFd \<Rightarrow> int" where
  "UniqueFd_get u = ufd u"

definition UniqueFd_valid :: "UniqueFd \<Rightarrow> bool" where
  "UniqueFd_valid u \<longleftrightarrow> ufd u \<noteq> - 1"

text \<open>\<^verbatim>\<open>reset(newfd)\<close>: close what is owned, then hold \<open>newfd\<close>.\<close>

definition UniqueFd_reset :: "int \<Rightarrow> UniqueFd \<Rightarrow> event list \<Rightarrow> UniqueFd \<times> event list" where
  "UniqueFd_reset newfd u tr =
     (UniqueFd newfd, if ufd u \<noteq> - 1 then tr @ [SysClose (ufd u)] else tr)"

text \<open>The destructor is \<^verbatim>\<open>reset()\<close>; the object is gone, the trace remains.\<close>

definition UniqueFd_dtor :: "UniqueFd \<Rightarrow> event list \<Rightarrow> event list" where
  "UniqueFd_dtor u tr = snd (UniqueFd_reset (- 1) u tr)"

text \<open>
  The move operations change two objects, and move assignment compares their addresses.
  Handles therefore live in a store, a list indexed by address; an address is live when
  it is below the length of the store. A destroyed handle stays in the store, empty.
\<close>

type_synonym store = "UniqueFd list"

definition store_wrap :: "int \<Rightarrow> store \<Rightarrow> store" where
  "store_wrap fd h = h @ [UniqueFd fd]"

definition store_reset :: "nat \<Rightarrow> int \<Rightarrow> store \<times> event list \<Rightarrow> store \<times> event list" where
  "store_reset a newfd s =
     (case s of (h, tr) \<Rightarrow>
        (case UniqueFd_reset newfd (h ! a) tr of (u, tr') \<Rightarrow> (h[a := u], tr')))"

definition store_dtor :: "nat \<Rightarrow> store \<times> event list \<Rightarrow> store \<times> event list" where
  "store_dtor a s = store_reset a (- 1) s"

text \<open>Move construction from the handle at \<open>a\<close>: the new handle gets the next address.\<close>

definition store_move_ctor :: "nat \<Rightarrow> store \<Rightarrow> store" where
  "store_move_ctor a h = (h[a := UniqueFd (- 1)]) @ [UniqueFd (ufd (h ! a))]"

definition store_move_assign :: "nat \<Rightarrow> nat \<Rightarrow> store \<times> event list \<Rightarrow> store \<times> event list" where
  "store_move_assign this a s =
     (if this \<noteq> a then
        (case store_reset this (- 1) s of (h, tr) \<Rightarrow>
           ((h[this := UniqueFd (ufd (h ! a))])[a := UniqueFd (- 1)], tr))
      else s)"

text \<open>The identifiers owned by the handles of a store, and the ownership invariant.\<close>

definition owned :: "store \<Rightarrow> int list" where
  "owned h = filter (\<lambda>x. x \<noteq> - 1) (map ufd h)"

definition unique_owners :: "store \<Rightarrow> bool" where
  "unique_owners h \<longleftrightarrow> distinct (owned h)"

section \<open>\<^verbatim>\<open>sys::Epoll\<close>\<close>

datatype Epoll = Epoll (ep_fd: UniqueFd)

definition Epoll_ctor :: "os_env \<Rightarrow> event list \<Rightarrow> Epoll \<times> event list" where
  "Epoll_ctor env tr = (Epoll (UniqueFd (epoll_create1_ret env)), tr @ [SysEpollCreate1])"

definition Epoll_valid :: "Epoll \<Rightarrow> bool" where
  "Epoll_valid e = UniqueFd_valid (ep_fd e)"

definition Epoll_fd :: "Epoll \<Rightarrow> int" where
  "Epoll_fd e = UniqueFd_get (ep_fd e)"

definition Epoll_add_in :: "Epoll \<Rightarrow> int \<Rightarrow> event list \<Rightarrow> event list" where
  "Epoll_add_in e fd tr = tr @ [SysEpollCtlAdd (UniqueFd_get (ep_fd e)) fd]"

definition Epoll_del :: "Epoll \<Rightarrow> int \<Rightarrow> event list \<Rightarrow> event list" where
  "Epoll_del e fd tr = tr @ [SysEpollCtlDel (UniqueFd_get (ep_fd e)) fd]"

definition Epoll_wait :: "Epoll \<Rightarrow> event list \<Rightarrow> event list" where
  "Epoll_wait e tr = tr @ [SysEpollWait (UniqueFd_get (ep_fd e))]"

definition Epoll_dtor :: "Epoll \<Rightarrow> event list \<Rightarrow> event list" where
  "Epoll_dtor e tr = UniqueFd_dtor (ep_fd e) tr"

section \<open>\<^verbatim>\<open>sys::SignalFd\<close>\<close>

datatype SignalFd = SignalFd (sig_mask: "int list") (sig_fd: UniqueFd)

definition SignalFd_ctor :: "os_env \<Rightarrow> int list \<Rightarrow> event list \<Rightarrow> SignalFd \<times> event list" where
  "SignalFd_ctor env sigs tr =
     (let tr1 = tr @ [SysSigprocmaskBlock sigs];
          tr2 = tr1 @ [SysSignalfd sigs]
      in case UniqueFd_reset (signalfd_ret env) UniqueFd_default tr2 of
           (u, tr3) \<Rightarrow> (SignalFd sigs u, tr3))"

definition SignalFd_valid :: "SignalFd \<Rightarrow> bool" where
  "SignalFd_valid s = UniqueFd_valid (sig_fd s)"

definition SignalFd_fd :: "SignalFd \<Rightarrow> int" where
  "SignalFd_fd s = UniqueFd_get (sig_fd s)"

definition SignalFd_dtor :: "SignalFd \<Rightarrow> event list \<Rightarrow> event list" where
  "SignalFd_dtor s tr = UniqueFd_dtor (sig_fd s) tr"

text \<open>
  The loop of \<^verbatim>\<open>drain_and_handle\<close>. The second argument is the local \<^verbatim>\<open>stop\<close>. A read
  that does not return \<^verbatim>\<open>sizeof(si)\<close> ends the loop; an empty queue means that the
  script of answers ended before the loop did, and the result is \<open>None\<close>.
\<close>

fun drain_loop ::
  "SignalFd \<Rightarrow> bool \<Rightarrow> (int \<times> 32 word) list \<Rightarrow> event list
     \<Rightarrow> (bool \<times> (int \<times> 32 word) list \<times> event list) option" where
  "drain_loop s stp [] tr = None"
| "drain_loop s stp ((r, signo) # q) tr =
     (let tr1 = tr @ [SysRead (UniqueFd_get (sig_fd s))]
      in if r = sizeof_si then
           (if uint signo = SIGHUP then
              drain_loop s stp q (tr1 @ [Print [S (''[signal] SIGHUP'' @ nl)]])
            else if uint signo = SIGTERM then
              drain_loop s True q (tr1 @ [Print [S (''[signal] SIGTERM -> shutdown'' @ nl)]])
            else
              drain_loop s stp q (tr1 @ [Print [S ''[signal] '', N (uint signo), S nl]]))
         else Some (stp, q, tr1))"

definition SignalFd_drain_and_handle ::
  "SignalFd \<Rightarrow> (int \<times> 32 word) list \<Rightarrow> event list
     \<Rightarrow> (bool \<times> (int \<times> 32 word) list \<times> event list) option" where
  "SignalFd_drain_and_handle s q tr = drain_loop s False q tr"

section \<open>\<^verbatim>\<open>sys::Listener\<close>\<close>

datatype Listener = Listener (lst_fd: UniqueFd)

definition Listener_ctor :: "os_env \<Rightarrow> 16 word \<Rightarrow> event list \<Rightarrow> Listener \<times> event list" where
  "Listener_ctor env port tr =
     (let s = socket_ret env;
          tr1 = tr @ [SysSocket]
      in if s < 0 then (Listener UniqueFd_default, tr1)
         else
           let tr2 = tr1 @ [SysSetsockoptReuseaddr s];
               tr3 = tr2 @ [SysBind s INADDR_ANY port]
           in if bind_ret env < 0 then (Listener UniqueFd_default, tr3 @ [SysClose s])
              else
                let tr4 = tr3 @ [SysListen s SOMAXCONN]
                in if listen_ret env < 0 then (Listener UniqueFd_default, tr4 @ [SysClose s])
                   else
                     let tr5 = set_nonblock (fcntl_getfl_ret env) s tr4
                     in case UniqueFd_reset s UniqueFd_default tr5 of
                          (u, tr6) \<Rightarrow> (Listener u, tr6))"

definition Listener_valid :: "Listener \<Rightarrow> bool" where
  "Listener_valid l = UniqueFd_valid (lst_fd l)"

definition Listener_fd :: "Listener \<Rightarrow> int" where
  "Listener_fd l = UniqueFd_get (lst_fd l)"

text \<open>\<^verbatim>\<open>accept_one\<close>; the second argument is the value \<^verbatim>\<open>accept\<close> returned.\<close>

definition Listener_accept_one :: "Listener \<Rightarrow> int \<Rightarrow> event list \<Rightarrow> event list" where
  "Listener_accept_one l nf tr = tr @ [SysAccept (UniqueFd_get (lst_fd l)) nf]"

definition Listener_dtor :: "Listener \<Rightarrow> event list \<Rightarrow> event list" where
  "Listener_dtor l tr = UniqueFd_dtor (lst_fd l) tr"

section \<open>\<^verbatim>\<open>sys::Client\<close>\<close>

datatype Client = Client (cl_fd: UniqueFd)

definition Client_ctor :: "(int \<Rightarrow> int) \<Rightarrow> int \<Rightarrow> event list \<Rightarrow> Client \<times> event list" where
  "Client_ctor getfl fd tr = (Client (UniqueFd fd), set_nonblock getfl fd tr)"

definition Client_fd :: "Client \<Rightarrow> int" where
  "Client_fd c = UniqueFd_get (cl_fd c)"

definition Client_recv_some :: "Client \<Rightarrow> int \<Rightarrow> event list \<Rightarrow> event list" where
  "Client_recv_some c cap tr = tr @ [SysRecv (UniqueFd_get (cl_fd c)) cap]"

definition Client_dtor :: "Client \<Rightarrow> event list \<Rightarrow> event list" where
  "Client_dtor c tr = UniqueFd_dtor (cl_fd c) tr"

text \<open>\<^verbatim>\<open>std::optional<Client>::reset()\<close> and the optional's destructor.\<close>

definition client_reset :: "Client option \<Rightarrow> event list \<Rightarrow> event list" where
  "client_reset c tr = (case c of None \<Rightarrow> tr | Some cl \<Rightarrow> Client_dtor cl tr)"

section \<open>The port argument\<close>

text \<open>
  \<^verbatim>\<open>std::atoi\<close> belongs to the C library, not to the repository. The model follows
  ISO C: white space (\<^verbatim>\<open>isspace\<close> in the C locale) is skipped, one optional sign is
  read, then the longest run of decimal digits; no digits give 0. A value that does not
  fit is undefined in ISO C; the model takes what glibc does on x86-64, where \<^verbatim>\<open>atoi\<close>
  is \<^verbatim>\<open>(int) strtol(s, NULL, 10)\<close>: \<^verbatim>\<open>strtol\<close> saturates at the bounds of \<^verbatim>\<open>long\<close> and
  the conversion keeps the low 32 bits.
\<close>

definition isspace :: "char \<Rightarrow> bool" where
  "isspace c \<longleftrightarrow> c \<in> set [CHR '' '', CHR 0x09, CHR 0x0A, CHR 0x0B, CHR 0x0C, CHR 0x0D]"

definition isdigit :: "char \<Rightarrow> bool" where
  "isdigit c \<longleftrightarrow> 48 \<le> (of_char c :: nat) \<and> (of_char c :: nat) \<le> 57"

definition digit_value :: "char \<Rightarrow> int" where
  "digit_value c = int (of_char c) - 48"

fun digits_val :: "int \<Rightarrow> string \<Rightarrow> int" where
  "digits_val acc [] = acc"
| "digits_val acc (c # cs) =
     (if isdigit c then digits_val (acc * 10 + digit_value c) cs else acc)"

definition strtol10 :: "string \<Rightarrow> int" where
  "strtol10 s =
     (let s1 = dropWhile isspace s;
          neg = (s1 \<noteq> [] \<and> hd s1 = CHR ''-'');
          s2 = (if s1 \<noteq> [] \<and> (hd s1 = CHR ''-'' \<or> hd s1 = CHR ''+'') then tl s1 else s1);
          v = digits_val 0 s2;
          sv = (if neg then - v else v)
      in max (- (2 ^ 63)) (min (2 ^ 63 - 1) sv))"

definition atoi :: "string \<Rightarrow> int" where
  "atoi s = sint (word_of_int (strtol10 s) :: 32 word)"

text \<open>
  Lines 164 to 168 of \<^verbatim>\<open>main\<close>: \<open>argv\<close> is the whole argument vector, the program name
  first, and \<^verbatim>\<open>argc\<close> is its length.
\<close>

definition select_port :: "string list \<Rightarrow> 16 word" where
  "select_port argv =
     (if length argv > 1 then
        (let p = atoi (argv ! 1)
         in if p > 0 \<and> p \<le> 65535 then word_of_int p else 12345)
      else 12345)"

section \<open>\<^verbatim>\<open>main\<close>\<close>

record proc =
  sfd :: SignalFd
  lst :: Listener
  ep :: Epoll
  client :: "Client option"
  stop :: bool
  out :: "event list"

text \<open>
  The accept loop of lines 199 to 216. Any negative result ends it, whatever
  \<^verbatim>\<open>errno\<close> says.
\<close>

fun accept_loop ::
  "(int \<Rightarrow> int) \<Rightarrow> Listener \<Rightarrow> Epoll \<Rightarrow> int list \<Rightarrow> Client option \<Rightarrow> event list
     \<Rightarrow> (int list \<times> Client option \<times> event list) option" where
  "accept_loop getfl l e [] c tr = None"
| "accept_loop getfl l e (nf # q) c tr =
     (let tr1 = Listener_accept_one l nf tr
      in if nf < 0 then Some (q, c, tr1)
         else
           let tr2 = tr1 @ [Print [S (''New connection'' @ nl)]]
           in (case c of
                 None \<Rightarrow>
                   (case Client_ctor getfl nf tr2 of
                      (cl, tr3) \<Rightarrow>
                        accept_loop getfl l e q (Some cl)
                          (Epoll_add_in e (Client_fd cl) tr3
                             @ [Print [S (''This connection is now the active client'' @ nl)]]))
               | Some cl \<Rightarrow>
                   accept_loop getfl l e q c
                     (tr2 @ [Print [S (''Active client already present, closing new'' @ nl)],
                             SysClose nf])))"

text \<open>The receive loop of lines 223 to 246, entered with the client that is in the slot.\<close>

fun recv_loop ::
  "Epoll \<Rightarrow> Client \<Rightarrow> (int \<times> int) list \<Rightarrow> event list
     \<Rightarrow> ((int \<times> int) list \<times> Client option \<times> event list) option" where
  "recv_loop e cl [] tr = None"
| "recv_loop e cl ((r, errno) # q) tr =
     (let tr1 = Client_recv_some cl 4096 tr
      in if r > 0 then
           recv_loop e cl q (tr1 @ [Print [S ''Received '', N r, S ('' bytes'' @ nl)]])
         else if r = 0 then
           Some (q, None,
             client_reset (Some cl)
               (Epoll_del e (Client_fd cl)
                  (tr1 @ [Print [S (''Client closed connection'' @ nl)]])))
         else if errno = EAGAIN \<or> errno = EWOULDBLOCK then
           Some (q, Some cl, tr1)
         else
           Some (q, None,
             client_reset (Some cl)
               (Epoll_del e (Client_fd cl)
                  (tr1 @ [Print [S (''Client recv error'' @ nl)]]))))"

text \<open>
  The \<^verbatim>\<open>for\<close> loop over one batch of ready descriptors: the list holds
  \<^verbatim>\<open>events[0..n-1].data.fd\<close>.
\<close>

fun for_events ::
  "(int \<Rightarrow> int) \<Rightarrow> int list \<Rightarrow> queues \<Rightarrow> proc \<Rightarrow> (queues \<times> proc) option" where
  "for_events getfl [] qs p = Some (qs, p)"
| "for_events getfl (fd # fds) qs p =
     (if fd = SignalFd_fd (sfd p) then
        (case SignalFd_drain_and_handle (sfd p) (read_q qs) (out p) of
           None \<Rightarrow> None
         | Some (b, rq, tr) \<Rightarrow>
             for_events getfl fds (qs\<lparr>read_q := rq\<rparr>) (p\<lparr>stop := (stop p \<or> b), out := tr\<rparr>))
      else if fd = Listener_fd (lst p) then
        (case accept_loop getfl (lst p) (ep p) (accept_q qs) (client p) (out p) of
           None \<Rightarrow> None
         | Some (aq, c, tr) \<Rightarrow>
             for_events getfl fds (qs\<lparr>accept_q := aq\<rparr>) (p\<lparr>client := c, out := tr\<rparr>))
      else
        (case client p of
           None \<Rightarrow> for_events getfl fds qs p
         | Some cl \<Rightarrow>
             if fd = Client_fd cl then
               (case recv_loop (ep p) cl (recv_q qs) (out p) of
                  None \<Rightarrow> None
                | Some (rq, c, tr) \<Rightarrow>
                    for_events getfl fds (qs\<lparr>recv_q := rq\<rparr>) (p\<lparr>client := c, out := tr\<rparr>))
             else for_events getfl fds qs p))"

text \<open>
  The \<^verbatim>\<open>while (!stop)\<close> loop. Each entry of the first list is what one \<^verbatim>\<open>epoll_wait\<close>
  reported; the empty list stands for every result \<open>n \<le> 0\<close>. When the list ends
  with the flag unset the process is still waiting: \<open>None\<close>.
\<close>

fun while_loop ::
  "(int \<Rightarrow> int) \<Rightarrow> int list list \<Rightarrow> queues \<Rightarrow> proc \<Rightarrow> (queues \<times> proc) option" where
  "while_loop getfl [] qs p = (if stop p then Some (qs, p) else None)"
| "while_loop getfl (fds # wq) qs p =
     (if stop p then Some (qs, p)
      else
        (case for_events getfl fds qs (p\<lparr>out := Epoll_wait (ep p) (out p)\<rparr>) of
           None \<Rightarrow> None
         | Some (qs', p') \<Rightarrow> while_loop getfl wq qs' p'))"

text \<open>Lines 170 to 172: the three objects, constructed in this order.\<close>

definition startup :: "os_env \<Rightarrow> 16 word \<Rightarrow> (SignalFd \<times> Listener \<times> Epoll) \<times> event list" where
  "startup env port =
     (case SignalFd_ctor env [SIGHUP, SIGTERM] [] of
        (s, tr1) \<Rightarrow>
          (case Listener_ctor env port tr1 of
             (l, tr2) \<Rightarrow>
               (case Epoll_ctor env tr2 of
                  (e, tr3) \<Rightarrow> ((s, l, e), tr3))))"

text \<open>
  Destruction at \<^verbatim>\<open>return\<close>, in reverse order of declaration: the client slot, then
  \<^verbatim>\<open>ep\<close>, \<^verbatim>\<open>lst\<close>, \<^verbatim>\<open>sfd\<close>.
\<close>

definition teardown :: "SignalFd \<Rightarrow> Listener \<Rightarrow> Epoll \<Rightarrow> Client option \<Rightarrow> event list \<Rightarrow> event list" where
  "teardown s l e c tr =
     SignalFd_dtor s (Listener_dtor l (Epoll_dtor e (client_reset c tr)))"

text \<open>Lines 176 to 184: registration of the two descriptors, the banner, the locals.\<close>

definition loop_entry :: "SignalFd \<Rightarrow> Listener \<Rightarrow> Epoll \<Rightarrow> 16 word \<Rightarrow> event list \<Rightarrow> proc" where
  "loop_entry s l e port tr3 =
     (let tr4 = Epoll_add_in e (SignalFd_fd s) tr3;
          tr5 = Epoll_add_in e (Listener_fd l) tr4;
          tr6 = tr5 @ [Print [S ''Listening on port '', N (uint port), S nl]]
      in \<lparr>sfd = s, lst = l, ep = e, client = None, stop = False, out = tr6\<rparr>)"

text \<open>
  The whole program: \<open>None\<close> when the answers end before the process does, otherwise
  the exit code and the trace.
\<close>

definition main ::
  "string list \<Rightarrow> os_env \<Rightarrow> int list list \<Rightarrow> queues \<Rightarrow> (int \<times> event list) option" where
  "main argv env wq qs =
     (let port = select_port argv
      in case startup env port of
           ((s, l, e), tr3) \<Rightarrow>
             if \<not> SignalFd_valid s \<or> \<not> Listener_valid l \<or> \<not> Epoll_valid e
             then Some (1, teardown s l e None tr3)
             else
               (case while_loop (fcntl_getfl_ret env) wq qs (loop_entry s l e port tr3) of
                  None \<Rightarrow> None
                | Some (qs', p) \<Rightarrow>
                    Some (0, teardown (sfd p) (lst p) (ep p) (client p)
                               (out p @ [Print [S (''Server stopped'' @ nl)]]))))"

section \<open>Vocabulary of the properties\<close>

text \<open>What one drained signal leaves in the trace: the read and the line of the mapping.\<close>

definition sig_line :: "32 word \<Rightarrow> tok list" where
  "sig_line g =
     (if uint g = SIGHUP then [S (''[signal] SIGHUP'' @ nl)]
      else if uint g = SIGTERM then [S (''[signal] SIGTERM -> shutdown'' @ nl)]
      else [S ''[signal] '', N (uint g), S nl])"

definition sig_events :: "int \<Rightarrow> 32 word \<Rightarrow> event list" where
  "sig_events fd g = [SysRead fd, Print (sig_line g)]"

text \<open>What an admitted and a rejected connection leave in the trace.\<close>

definition admit_events :: "(int \<Rightarrow> int) \<Rightarrow> int \<Rightarrow> int \<Rightarrow> int \<Rightarrow> event list" where
  "admit_events getfl lfd epfd nf =
     [SysAccept lfd nf, Print [S (''New connection'' @ nl)],
      SysFcntlGetfl nf, SysFcntlSetfl nf (getfl nf OR O_NONBLOCK),
      SysEpollCtlAdd epfd nf,
      Print [S (''This connection is now the active client'' @ nl)]]"

definition reject_events :: "int \<Rightarrow> int \<Rightarrow> event list" where
  "reject_events lfd nf =
     [SysAccept lfd nf, Print [S (''New connection'' @ nl)],
      Print [S (''Active client already present, closing new'' @ nl)],
      SysClose nf]"

text \<open>What a received chunk leaves in the trace, and what the removal of the client does.\<close>

definition recv_events :: "int \<Rightarrow> int \<times> int \<Rightarrow> event list" where
  "recv_events cfd re =
     [SysRecv cfd 4096, Print [S ''Received '', N (fst re), S ('' bytes'' @ nl)]]"

definition drop_events :: "int \<Rightarrow> int \<Rightarrow> string \<Rightarrow> event list" where
  "drop_events epfd cfd msg =
     [SysRecv cfd 4096, Print [S (msg @ nl)], SysEpollCtlDel epfd cfd, SysClose cfd]"

text \<open>The value of a string of decimal digits.\<close>

definition decimal :: "string \<Rightarrow> int" where
  "decimal ds = foldl (\<lambda>a c. a * 10 + digit_value c) 0 ds"

text \<open>The line of the termination signal, as an event of the trace.\<close>

definition term_line :: event where
  "term_line = Print [S (''[signal] SIGTERM -> shutdown'' @ nl)]"

text \<open>Waits in a trace, and the closes a list of handles leaves when destroyed in order.\<close>

definition is_wait :: "event \<Rightarrow> bool" where
  "is_wait ev = (case ev of SysEpollWait _ \<Rightarrow> True | _ \<Rightarrow> False)"

definition closes :: "int list \<Rightarrow> event list" where
  "closes fds = map SysClose (filter (\<lambda>fd. fd \<noteq> - 1) fds)"

text \<open>The three checked steps of the \<open>Listener\<close> constructor.\<close>

definition listener_failed :: "os_env \<Rightarrow> bool" where
  "listener_failed env \<longleftrightarrow> socket_ret env < 0 \<or> bind_ret env < 0 \<or> listen_ret env < 0"

text \<open>
  Registration, read off a trace. The state is the list of pairs of an epoll descriptor
  and a descriptor registered with it: \<^verbatim>\<open>EPOLL_CTL_ADD\<close> adds a pair,
  \<^verbatim>\<open>EPOLL_CTL_DEL\<close> removes it. A close of a descriptor that is registered is a
  violation, \<open>None\<close>; a close of an epoll descriptor ends all its registrations.
\<close>

definition track_step :: "(int \<times> int) list \<Rightarrow> event \<Rightarrow> (int \<times> int) list option" where
  "track_step R ev =
     (case ev of
        SysEpollCtlAdd epfd fd \<Rightarrow> Some ((epfd, fd) # R)
      | SysEpollCtlDel epfd fd \<Rightarrow> Some (removeAll (epfd, fd) R)
      | SysClose fd \<Rightarrow>
          if fd \<in> set (map snd R) then None else Some (filter (\<lambda>p. fst p \<noteq> fd) R)
      | _ \<Rightarrow> Some R)"

fun track :: "(int \<times> int) list \<Rightarrow> event list \<Rightarrow> (int \<times> int) list option" where
  "track R [] = Some R"
| "track R (ev # es) = (case track_step R ev of None \<Rightarrow> None | Some R' \<Rightarrow> track R' es)"

text \<open>Every close in the trace is of a descriptor that is not registered at that moment.\<close>

definition dereg_before_close :: "event list \<Rightarrow> bool" where
  "dereg_before_close tr \<longleftrightarrow> track [] tr \<noteq> None"

text \<open>
  What the operating system guarantees about \<^verbatim>\<open>accept\<close>, read off a trace: the
  descriptor it returns is not open at that moment. The state is the list of open
  descriptors, starting from those the process holds; an accepted descriptor joins it,
  a closed one leaves it and its number may be returned again. \<open>None\<close> is a trace
  in which \<^verbatim>\<open>accept\<close> returned a descriptor that was open.
\<close>

definition fresh_step :: "int list \<Rightarrow> event \<Rightarrow> int list option" where
  "fresh_step opn ev =
     (case ev of
        SysAccept lfd nf \<Rightarrow>
          if nf < 0 then Some opn else if nf \<in> set opn then None else Some (nf # opn)
      | SysClose fd \<Rightarrow> Some (removeAll fd opn)
      | _ \<Rightarrow> Some opn)"

fun fresh_track :: "int list \<Rightarrow> event list \<Rightarrow> int list option" where
  "fresh_track opn [] = Some opn"
| "fresh_track opn (ev # es) =
     (case fresh_step opn ev of None \<Rightarrow> None | Some opn' \<Rightarrow> fresh_track opn' es)"

definition accepts_fresh :: "int list \<Rightarrow> event list \<Rightarrow> bool" where
  "accepts_fresh held tr \<longleftrightarrow> fresh_track held tr \<noteq> None"

text \<open>
  The invariant of the dispatch loop: the registrations are those of the signal
  channel, the listener and the client in the slot, and all of these are open. A piece
  of trace keeps it when, on every run of it in which \<^verbatim>\<open>accept\<close> returns fresh
  descriptors, no registered descriptor is closed and the invariant holds again.
\<close>

definition cset :: "Client option \<Rightarrow> int set" where
  "cset c = (case c of None \<Rightarrow> {} | Some cl \<Rightarrow> {Client_fd cl})"

definition reg_inv ::
  "int \<Rightarrow> int \<Rightarrow> int \<Rightarrow> Client option \<Rightarrow> (int \<times> int) list \<Rightarrow> int list \<Rightarrow> bool" where
  "reg_inv ef sf lf c R opn \<longleftrightarrow>
     set R \<subseteq> {ef} \<times> ({sf, lf} \<union> cset c) \<and>
     {sf, lf, ef} \<union> cset c \<subseteq> set opn \<and>
     (\<forall>cl. c = Some cl \<longrightarrow>
        (ef, Client_fd cl) \<in> set R \<and> Client_fd cl \<noteq> - 1 \<and> Client_fd cl \<notin> {sf, lf, ef})"

definition steps_ok ::
  "int \<Rightarrow> int \<Rightarrow> int \<Rightarrow> Client option \<Rightarrow> event list \<Rightarrow> Client option \<Rightarrow> bool" where
  "steps_ok ef sf lf c es c' \<longleftrightarrow>
     (\<forall>R opn. reg_inv ef sf lf c R opn \<longrightarrow>
        (case fresh_track opn es of
           None \<Rightarrow> True
         | Some opn' \<Rightarrow> (\<exists>R'. track R es = Some R' \<and> reg_inv ef sf lf c' R' opn')))"

text \<open>Events that neither register, nor accept a descriptor, nor close one.\<close>

definition inert :: "event \<Rightarrow> bool" where
  "inert ev \<longleftrightarrow> track_step [] ev = Some [] \<and> (\<forall>opn. fresh_step opn ev = Some opn)
     \<and> (\<forall>R. track_step R ev = Some R)"

text \<open>
  What the receive loop leaves in the trace when it removes the client, and what the
  accept loop leaves when it admits the first of a run of accepted identifiers.
\<close>

definition removal_events :: "int \<Rightarrow> int \<Rightarrow> (int \<times> int) list \<Rightarrow> int \<Rightarrow> event list" where
  "removal_events epfd cfd chunks r =
     concat (map (recv_events cfd) chunks) @
     drop_events epfd cfd (if r = 0 then ''Client closed connection'' else ''Client recv error'')"

definition admission_events ::
  "(int \<Rightarrow> int) \<Rightarrow> int \<Rightarrow> int \<Rightarrow> int \<Rightarrow> int list \<Rightarrow> int \<Rightarrow> event list" where
  "admission_events getfl lfd epfd nf acc stopv =
     admit_events getfl lfd epfd nf @ concat (map (reject_events lfd) acc) @ [SysAccept lfd stopv]"

section \<open>Concrete environments\<close>

text \<open>
  Start-up answers of a run where everything succeeds: the signalfd is 3, the listening
  socket 4, the epoll instance 5, and every descriptor has the flags \<^verbatim>\<open>O_RDWR\<close>.
\<close>

definition env_ok :: os_env where
  "env_ok = \<lparr>signalfd_ret = 3, socket_ret = 4, setsockopt_ret = 0, bind_ret = 0,
     listen_ret = 0, epoll_create1_ret = 5, fcntl_getfl_ret = (\<lambda>_. 2)\<rparr>"

text \<open>The same with \<^verbatim>\<open>bind\<close> failing.\<close>

definition env_bind_fail :: os_env where
  "env_bind_fail = env_ok\<lparr>bind_ret := - 1\<rparr>"

text \<open>
  The same with \<^verbatim>\<open>setsockopt\<close> failing and \<^verbatim>\<open>fcntl(F_GETFL)\<close> failing on every
  descriptor.
\<close>

definition env_opt_fail :: os_env where
  "env_opt_fail = env_ok\<lparr>setsockopt_ret := - 1, fcntl_getfl_ret := (\<lambda>_. - 1)\<rparr>"

text \<open>Loop answers: one SIGTERM is pending, then the signalfd has nothing more.\<close>

definition qs_term :: queues where
  "qs_term = \<lparr>read_q = [(128, 15), (- 1, 0)], accept_q = [], recv_q = []\<rparr>"

text \<open>
  Loop answers with one client that is still active when the SIGTERM arrives, and the
  trace of that run on \<open>env_ok\<close>.
\<close>

definition qs_client_term :: queues where
  "qs_client_term = \<lparr>read_q = [(128, 15), (- 1, 0)], accept_q = [6, - 1], recv_q = []\<rparr>"

definition trace_client_at_shutdown :: "event list" where
  "trace_client_at_shutdown =
     [SysSigprocmaskBlock [1, 15], SysSignalfd [1, 15], SysSocket, SysSetsockoptReuseaddr 4,
      SysBind 4 0 12345, SysListen 4 4096, SysFcntlGetfl 4, SysFcntlSetfl 4 2050,
      SysEpollCreate1, SysEpollCtlAdd 5 3, SysEpollCtlAdd 5 4,
      Print [S ''Listening on port '', N 12345, S nl],
      SysEpollWait 5,
      SysAccept 4 6, Print [S (''New connection'' @ nl)],
      SysFcntlGetfl 6, SysFcntlSetfl 6 2050, SysEpollCtlAdd 5 6,
      Print [S (''This connection is now the active client'' @ nl)],
      SysAccept 4 (- 1),
      SysEpollWait 5,
      SysRead 3, Print [S (''[signal] SIGTERM -> shutdown'' @ nl)], SysRead 3,
      Print [S (''Server stopped'' @ nl)],
      SysClose 6, SysClose 5, SysClose 4, SysClose 3]"

text \<open>
  Loop answers in which descriptor 6 is accepted, 7 is rejected, 6 is closed by its peer,
  6 is accepted a second time and lost to a hard error, and then the SIGTERM arrives;
  the trace of the loop of that run.
\<close>

definition qs_client_reuse :: queues where
  "qs_client_reuse =
     \<lparr>read_q = [(128, 15), (- 1, 0)], accept_q = [6, 7, - 1, 6, - 1],
      recv_q = [(5, 0), (0, 0), (- 1, 104)]\<rparr>"

definition trace_client_reuse :: "event list" where
  "trace_client_reuse =
     [SysSigprocmaskBlock [1, 15], SysSignalfd [1, 15], SysSocket, SysSetsockoptReuseaddr 4,
      SysBind 4 0 12345, SysListen 4 4096, SysFcntlGetfl 4, SysFcntlSetfl 4 2050,
      SysEpollCreate1, SysEpollCtlAdd 5 3, SysEpollCtlAdd 5 4,
      Print [S ''Listening on port '', N 12345, S nl],
      SysEpollWait 5,
      SysAccept 4 6, Print [S (''New connection'' @ nl)],
      SysFcntlGetfl 6, SysFcntlSetfl 6 2050, SysEpollCtlAdd 5 6,
      Print [S (''This connection is now the active client'' @ nl)],
      SysAccept 4 7, Print [S (''New connection'' @ nl)],
      Print [S (''Active client already present, closing new'' @ nl)], SysClose 7,
      SysAccept 4 (- 1),
      SysEpollWait 5,
      SysRecv 6 4096, Print [S ''Received '', N 5, S ('' bytes'' @ nl)],
      SysRecv 6 4096, Print [S (''Client closed connection'' @ nl)],
      SysEpollCtlDel 5 6, SysClose 6,
      SysEpollWait 5,
      SysAccept 4 6, Print [S (''New connection'' @ nl)],
      SysFcntlGetfl 6, SysFcntlSetfl 6 2050, SysEpollCtlAdd 5 6,
      Print [S (''This connection is now the active client'' @ nl)],
      SysAccept 4 (- 1),
      SysEpollWait 5,
      SysRecv 6 4096, Print [S (''Client recv error'' @ nl)],
      SysEpollCtlDel 5 6, SysClose 6,
      SysEpollWait 5,
      SysRead 3, Print [S (''[signal] SIGTERM -> shutdown'' @ nl)], SysRead 3]"

text \<open>
  A state of the dispatch loop with client 6 in the slot, and answers in which the
  client sends five bytes and closes, after which \<^verbatim>\<open>accept\<close> returns 6 again and 7.
\<close>

definition p_active :: proc where
  "p_active = \<lparr>sfd = SignalFd [1, 15] (UniqueFd 3), lst = Listener (UniqueFd 4),
     ep = Epoll (UniqueFd 5), client = Some (Client (UniqueFd 6)), stop = False, out = []\<rparr>"

definition qs_reuse :: queues where
  "qs_reuse = \<lparr>read_q = [(128, 15), (- 1, 0)], accept_q = [6, 7, - 1],
     recv_q = [(5, 0), (0, 0)]\<rparr>"

section \<open>The port argument: lemmas\<close>











lemmas port_eval =
  isdigit_def select_port_def atoi_def strtol10_def isspace_def digit_value_def decimal_def Let_def

section \<open>The loops: lemmas\<close>

lemma SIGTERM_neq_SIGHUP: "SIGTERM \<noteq> SIGHUP"
  by (simp add: SIGTERM_def SIGHUP_def)

lemma drain_loop_run:
  "r \<noteq> sizeof_si \<Longrightarrow>
   drain_loop s b (map (Pair sizeof_si) sigs @ (r, x) # rest) tr =
     Some (b \<or> SIGTERM \<in> set (map uint sigs), rest,
           tr @ concat (map (sig_events (SignalFd_fd s)) sigs) @ [SysRead (SignalFd_fd s)])"
proof (induction sigs arbitrary: b tr)
  case Nil
  then show ?case by (simp add: SignalFd_fd_def)
next
  case (Cons g sigs)
  then show ?case
    by (auto simp: sig_events_def sig_line_def SignalFd_fd_def SIGTERM_neq_SIGHUP)
qed

lemma accept_loop_occupied:
  "\<forall>nf\<in>set acc. 0 \<le> nf \<Longrightarrow> stopv < 0 \<Longrightarrow>
   accept_loop g l e (acc @ stopv # rest) (Some cl) tr =
     Some (rest, Some cl,
           tr @ concat (map (reject_events (Listener_fd l)) acc) @ [SysAccept (Listener_fd l) stopv])"
proof (induction acc arbitrary: tr)
  case Nil
  then show ?case by (simp add: Listener_accept_one_def Listener_fd_def)
next
  case (Cons nf acc)
  then show ?case
    by (simp add: Listener_accept_one_def Listener_fd_def reject_events_def)
qed

lemma accept_loop_empty_slot:
  assumes "0 \<le> nf" "\<forall>x\<in>set acc. 0 \<le> x" "stopv < 0"
  shows "accept_loop g l e (nf # acc @ stopv # rest) None tr =
     Some (rest, Some (Client (UniqueFd nf)),
           tr @ admit_events g (Listener_fd l) (Epoll_fd e) nf
              @ concat (map (reject_events (Listener_fd l)) acc) @ [SysAccept (Listener_fd l) stopv])"
  using assms accept_loop_occupied [of acc stopv g l e rest "Client (UniqueFd nf)"]
  by (simp add: Listener_accept_one_def Listener_fd_def Client_ctor_def set_nonblock_def
      Epoll_add_in_def Client_fd_def UniqueFd_get_def Epoll_fd_def admit_events_def)

lemma recv_loop_run:
  assumes "\<forall>re\<in>set chunks. 0 < fst re" "r \<le> 0" "Client_fd cl \<noteq> - 1"
  shows "recv_loop e cl (chunks @ (r, err) # rest) tr =
     Some (rest,
       (if r = 0 then None else if err = EAGAIN \<or> err = EWOULDBLOCK then Some cl else None),
       tr @ concat (map (recv_events (Client_fd cl)) chunks) @
         (if r = 0 then drop_events (Epoll_fd e) (Client_fd cl) ''Client closed connection''
          else if err = EAGAIN \<or> err = EWOULDBLOCK then [SysRecv (Client_fd cl) 4096]
          else drop_events (Epoll_fd e) (Client_fd cl) ''Client recv error''))"
  using assms
proof (induction chunks arbitrary: tr)
  case Nil
  then show ?case
    by (simp add: Client_recv_some_def client_reset_def Client_dtor_def UniqueFd_dtor_def
        UniqueFd_reset_def Epoll_del_def Client_fd_def UniqueFd_get_def Epoll_fd_def drop_events_def)
next
  case (Cons re chunks)
  then show ?case
    by (cases re) (simp add: Client_recv_some_def recv_events_def Client_fd_def UniqueFd_get_def)
qed

lemma while_loop_stop: "while_loop g wq qs p = Some (qs', p') \<Longrightarrow> stop p'"
proof (induction wq arbitrary: qs p)
  case Nil
  then show ?case by (simp split: if_splits)
next
  case (Cons fds wq)
  then show ?case by (auto split: if_splits option.splits)
qed

lemma while_loop_stopped: "stop p \<Longrightarrow> while_loop g wq qs p = Some (qs, p)"
  by (cases wq) simp_all

lemma UniqueFd_dtor_append: "UniqueFd_dtor u (a @ b) = a @ UniqueFd_dtor u b"
  by (simp add: UniqueFd_dtor_def UniqueFd_reset_def)

lemma teardown_append: "teardown s l e c (a @ b) = a @ teardown s l e c b"
  by (cases c)
    (simp_all add: teardown_def SignalFd_dtor_def Listener_dtor_def Epoll_dtor_def
      client_reset_def Client_dtor_def UniqueFd_dtor_append)

lemma main_exit0:
  assumes "startup env (select_port argv) = ((s, l, e), tr3)"
    and "SignalFd_valid s" "Listener_valid l" "Epoll_valid e"
    and "while_loop (fcntl_getfl_ret env) wq qs (loop_entry s l e (select_port argv) tr3) = Some (qs', p')"
  shows "main argv env wq qs =
           Some (0, out p' @ [Print [S (''Server stopped'' @ nl)]]
                      @ teardown (sfd p') (lst p') (ep p') (client p') [])"
  using assms
    teardown_append [of "sfd p'" "lst p'" "ep p'" "client p'"
      "out p' @ [Print [S (''Server stopped'' @ nl)]]" "[]"]
  by (simp add: main_def)

lemma main_waiting:
  assumes "startup env (select_port argv) = ((s, l, e), tr3)"
    and "SignalFd_valid s" "Listener_valid l" "Epoll_valid e"
    and "while_loop (fcntl_getfl_ret env) wq qs (loop_entry s l e (select_port argv) tr3) = None"
  shows "main argv env wq qs = None"
  using assms by (simp add: main_def)

lemma main_exit1:
  assumes "startup env (select_port argv) = ((s, l, e), tr3)"
    and "\<not> SignalFd_valid s \<or> \<not> Listener_valid l \<or> \<not> Epoll_valid e"
  shows "main argv env wq qs = Some (1, teardown s l e None tr3)"
  using assms by (auto simp: main_def)

lemma for_events_slot_stays_empty:
  "for_events g fds qs p = Some (qs', p') \<Longrightarrow> client p = None \<Longrightarrow>
   Listener_fd (lst p) \<notin> set fds \<Longrightarrow> client p' = None \<and> lst p' = lst p"
proof (induction fds arbitrary: qs p)
  case Nil
  then show ?case by simp
next
  case (Cons fd fds)
  show ?case
  proof (cases "fd = SignalFd_fd (sfd p)")
    case True
    with Cons.prems obtain b rq tr where
      "for_events g fds (qs\<lparr>read_q := rq\<rparr>) (p\<lparr>stop := (stop p \<or> b), out := tr\<rparr>) = Some (qs', p')"
      by (auto split: option.splits)
    from Cons.IH [OF this] Cons.prems show ?thesis by simp
  next
    case False
    with Cons.prems have "for_events g fds qs p = Some (qs', p')"
      by (auto split: option.splits)
    from Cons.IH [OF this] Cons.prems show ?thesis by simp
  qed
qed

lemmas run_eval =
  main_def startup_def loop_entry_def teardown_def select_port_def
  SignalFd_ctor_def SignalFd_valid_def SignalFd_fd_def SignalFd_dtor_def
  SignalFd_drain_and_handle_def
  Listener_ctor_def Listener_valid_def Listener_fd_def Listener_dtor_def Listener_accept_one_def
  Epoll_ctor_def Epoll_valid_def Epoll_fd_def Epoll_add_in_def Epoll_del_def Epoll_wait_def
  Epoll_dtor_def
  Client_ctor_def Client_fd_def Client_recv_some_def Client_dtor_def client_reset_def
  UniqueFd_default_def UniqueFd_get_def UniqueFd_valid_def UniqueFd_reset_def UniqueFd_dtor_def
  set_nonblock_def sig_events_def sig_line_def admit_events_def reject_events_def
  recv_events_def drop_events_def
  SIGHUP_def SIGTERM_def EAGAIN_def EWOULDBLOCK_def O_NONBLOCK_def INADDR_ANY_def
  SOMAXCONN_def sizeof_si_def Let_def

lemma startup_env_ok:
  "startup env_ok port =
     ((SignalFd [1, 15] (UniqueFd 3), Listener (UniqueFd 4), Epoll (UniqueFd 5)),
      [SysSigprocmaskBlock [1, 15], SysSignalfd [1, 15], SysSocket, SysSetsockoptReuseaddr 4,
       SysBind 4 0 port, SysListen 4 4096, SysFcntlGetfl 4, SysFcntlSetfl 4 2050,
       SysEpollCreate1])"
  by (simp add: run_eval env_ok_def)



lemma drain_loop_trace:
  "drain_loop s b q tr = Some (b', q', tr') \<Longrightarrow>
   set tr \<subseteq> set tr' \<and> (b' \<longrightarrow> b \<or> term_line \<in> set tr')"
proof (induction q arbitrary: b tr)
  case Nil
  then show ?case by simp
next
  case (Cons a q)
  obtain r g where a: "a = (r, g)" by (cases a)
  show ?case
  proof (cases "r = sizeof_si")
    case False
    with Cons.prems a show ?thesis by auto
  next
    case True
    consider (hup) "uint g = SIGHUP" | (trm) "uint g \<noteq> SIGHUP" "uint g = SIGTERM"
      | (oth) "uint g \<noteq> SIGHUP" "uint g \<noteq> SIGTERM" by blast
    then show ?thesis
    proof cases
      case hup
      with Cons.prems a True have
        "drain_loop s b q (tr @ [SysRead (UniqueFd_get (sig_fd s)),
           Print [S (''[signal] SIGHUP'' @ nl)]]) = Some (b', q', tr')"
        by simp
      from Cons.IH [OF this] show ?thesis by auto
    next
      case trm
      with Cons.prems a True have
        "drain_loop s True q (tr @ [SysRead (UniqueFd_get (sig_fd s)),
           Print [S (''[signal] SIGTERM -> shutdown'' @ nl)]]) = Some (b', q', tr')"
        by simp
      from Cons.IH [OF this] show ?thesis by (auto simp: term_line_def)
    next
      case oth
      with Cons.prems a True have
        "drain_loop s b q (tr @ [SysRead (UniqueFd_get (sig_fd s)),
           Print [S ''[signal] '', N (uint g), S nl]]) = Some (b', q', tr')"
        by simp
      from Cons.IH [OF this] show ?thesis by auto
    qed
  qed
qed

lemma accept_loop_trace:
  "accept_loop g l e q c tr = Some (q', c', tr') \<Longrightarrow> set tr \<subseteq> set tr'"
proof (induction q arbitrary: c tr)
  case Nil
  then show ?case by simp
next
  case (Cons nf q)
  show ?case
  proof (cases "nf < 0")
    case True
    with Cons.prems show ?thesis by (auto simp: Listener_accept_one_def)
  next
    case False
    show ?thesis
    proof (cases c)
      case None
      with Cons.prems False have
        "accept_loop g l e q (Some (Client (UniqueFd nf)))
           (tr @ admit_events g (Listener_fd l) (Epoll_fd e) nf) = Some (q', c', tr')"
        by (simp add: Listener_accept_one_def Client_ctor_def set_nonblock_def Epoll_add_in_def
            admit_events_def Listener_fd_def Epoll_fd_def Client_fd_def UniqueFd_get_def)
      from Cons.IH [OF this] show ?thesis by simp
    next
      case (Some cl)
      with Cons.prems False have
        "accept_loop g l e q c (tr @ reject_events (Listener_fd l) nf) = Some (q', c', tr')"
        by (simp add: Listener_accept_one_def reject_events_def Listener_fd_def)
      from Cons.IH [OF this] show ?thesis by simp
    qed
  qed
qed

lemma recv_loop_trace:
  "recv_loop e cl q tr = Some (q', c', tr') \<Longrightarrow> set tr \<subseteq> set tr'"
proof (induction q arbitrary: tr)
  case Nil
  then show ?case by simp
next
  case (Cons a q)
  obtain r err where a: "a = (r, err)" by (cases a)
  show ?case
  proof (cases "0 < r")
    case True
    with Cons.prems a have
      "recv_loop e cl q (tr @ recv_events (Client_fd cl) (r, err)) = Some (q', c', tr')"
      by (simp add: Client_recv_some_def recv_events_def Client_fd_def)
    from Cons.IH [OF this] show ?thesis by simp
  next
    case False
    with Cons.prems a show ?thesis
      by (auto simp: Client_recv_some_def client_reset_def Client_dtor_def UniqueFd_dtor_def
          UniqueFd_reset_def Epoll_del_def Let_def split: if_splits)
  qed
qed

lemma for_events_trace:
  "for_events g fds qs p = Some (qs', p') \<Longrightarrow>
   set (out p) \<subseteq> set (out p') \<and> (stop p' \<longrightarrow> stop p \<or> term_line \<in> set (out p'))"
proof (induction fds arbitrary: qs p)
  case Nil
  then show ?case by simp
next
  case (Cons fd fds)
  show ?case
  proof (cases "fd = SignalFd_fd (sfd p)")
    case True
    with Cons.prems obtain b rq tr where
      d: "drain_loop (sfd p) False (read_q qs) (out p) = Some (b, rq, tr)"
      and f: "for_events g fds (qs\<lparr>read_q := rq\<rparr>) (p\<lparr>stop := (stop p \<or> b), out := tr\<rparr>) = Some (qs', p')"
      by (auto simp: SignalFd_drain_and_handle_def split: option.splits)
    from drain_loop_trace [OF d] Cons.IH [OF f] show ?thesis by auto
  next
    case nsig: False
    show ?thesis
    proof (cases "fd = Listener_fd (lst p)")
      case True
      with nsig Cons.prems obtain aq c tr where
        d: "accept_loop g (lst p) (ep p) (accept_q qs) (client p) (out p) = Some (aq, c, tr)"
        and f: "for_events g fds (qs\<lparr>accept_q := aq\<rparr>) (p\<lparr>client := c, out := tr\<rparr>) = Some (qs', p')"
        by (auto split: option.splits)
      from accept_loop_trace [OF d] Cons.IH [OF f] show ?thesis by auto
    next
      case nlst: False
      show ?thesis
      proof (cases "\<exists>cl. client p = Some cl \<and> fd = Client_fd cl")
        case True
        then obtain cl where cl: "client p = Some cl" "fd = Client_fd cl" by blast
        with nsig nlst Cons.prems obtain rq c tr where
          d: "recv_loop (ep p) cl (recv_q qs) (out p) = Some (rq, c, tr)"
          and f: "for_events g fds (qs\<lparr>recv_q := rq\<rparr>) (p\<lparr>client := c, out := tr\<rparr>) = Some (qs', p')"
          by (auto split: option.splits)
        from recv_loop_trace [OF d] Cons.IH [OF f] show ?thesis by auto
      next
        case False
        with nsig nlst Cons.prems have "for_events g fds qs p = Some (qs', p')"
          by (auto split: option.splits)
        from Cons.IH [OF this] show ?thesis .
      qed
    qed
  qed
qed

lemma while_loop_trace:
  "while_loop g wq qs p = Some (qs', p') \<Longrightarrow>
   set (out p) \<subseteq> set (out p') \<and> (stop p \<or> term_line \<in> set (out p'))"
proof (induction wq arbitrary: qs p)
  case Nil
  then show ?case by (auto split: if_splits)
next
  case (Cons fds wq)
  show ?case
  proof (cases "stop p")
    case True
    with Cons.prems show ?thesis by auto
  next
    case False
    with Cons.prems obtain qs1 p1 where
      f: "for_events g fds qs (p\<lparr>out := Epoll_wait (ep p) (out p)\<rparr>) = Some (qs1, p1)"
      and w: "while_loop g wq qs1 p1 = Some (qs', p')"
      by (auto split: option.splits)
    from for_events_trace [OF f] Cons.IH [OF w] False show ?thesis
      by (auto simp: Epoll_wait_def)
  qed
qed

lemma teardown_closes:
  "teardown s l e c [] =
     closes ((case c of None \<Rightarrow> [] | Some cl \<Rightarrow> [Client_fd cl]) @
             [Epoll_fd e, Listener_fd l, SignalFd_fd s])"
  by (cases c)
    (simp_all add: teardown_def SignalFd_dtor_def Listener_dtor_def Epoll_dtor_def
      client_reset_def Client_dtor_def UniqueFd_dtor_def UniqueFd_reset_def closes_def
      Client_fd_def Epoll_fd_def Listener_fd_def SignalFd_fd_def UniqueFd_get_def)

lemma closes_no_wait: "\<not> list_ex is_wait (closes fds)"
  by (induction fds) (auto simp: closes_def is_wait_def)

lemma Listener_ctor_append: "snd (Listener_ctor env port tr) = tr @ snd (Listener_ctor env port [])"
  by (simp add: Listener_ctor_def Let_def set_nonblock_def UniqueFd_reset_def UniqueFd_default_def)

lemma Listener_ctor_no_wait: "\<not> list_ex is_wait (snd (Listener_ctor env port []))"
  by (simp add: Listener_ctor_def Let_def set_nonblock_def UniqueFd_reset_def UniqueFd_default_def
      is_wait_def)

lemma startup_trace:
  "snd (startup env port) =
     [SysSigprocmaskBlock [SIGHUP, SIGTERM], SysSignalfd [SIGHUP, SIGTERM]]
       @ snd (Listener_ctor env port []) @ [SysEpollCreate1]"
  using Listener_ctor_append [of env port "[SysSigprocmaskBlock [SIGHUP, SIGTERM], SysSignalfd [SIGHUP, SIGTERM]]"]
  by (simp add: startup_def SignalFd_ctor_def Epoll_ctor_def UniqueFd_reset_def
      UniqueFd_default_def Let_def case_prod_beta)

lemma startup_objects:
  "fst (startup env port) =
     (SignalFd [SIGHUP, SIGTERM] (UniqueFd (signalfd_ret env)),
      fst (Listener_ctor env port []),
      Epoll (UniqueFd (epoll_create1_ret env)))"
  by (simp add: startup_def SignalFd_ctor_def Epoll_ctor_def UniqueFd_reset_def
      UniqueFd_default_def Let_def Listener_ctor_def set_nonblock_def case_prod_beta)

lemma startup_no_wait: "\<not> list_ex is_wait (snd (startup env port))"
  using Listener_ctor_no_wait [of env port]
  by (simp add: startup_trace is_wait_def)


lemma Listener_ctor_valid:
  "Listener_valid (fst (Listener_ctor env port tr)) \<longleftrightarrow> \<not> listener_failed env"
  by (auto simp: Listener_ctor_def Let_def listener_failed_def Listener_valid_def
      UniqueFd_valid_def UniqueFd_default_def UniqueFd_reset_def)

lemma startup_valid:
  assumes "startup env port = ((s, l, e), tr3)"
  shows "SignalFd_valid s \<longleftrightarrow> signalfd_ret env \<noteq> - 1"
    and "Listener_valid l \<longleftrightarrow> \<not> listener_failed env"
    and "Epoll_valid e \<longleftrightarrow> epoll_create1_ret env \<noteq> - 1"
proof -
  from assms startup_objects [of env port] have
    o: "s = SignalFd [SIGHUP, SIGTERM] (UniqueFd (signalfd_ret env))"
       "l = fst (Listener_ctor env port [])"
       "e = Epoll (UniqueFd (epoll_create1_ret env))"
    by simp_all
  show "SignalFd_valid s \<longleftrightarrow> signalfd_ret env \<noteq> - 1"
    by (simp add: o SignalFd_valid_def UniqueFd_valid_def)
  show "Listener_valid l \<longleftrightarrow> \<not> listener_failed env"
    by (simp add: o Listener_ctor_valid)
  show "Epoll_valid e \<longleftrightarrow> epoll_create1_ret env \<noteq> - 1"
    by (simp add: o Epoll_valid_def UniqueFd_valid_def)
qed

lemma main_exit1_trace:
  assumes "startup env (select_port argv) = ((s, l, e), tr3)"
    and "\<not> SignalFd_valid s \<or> \<not> Listener_valid l \<or> \<not> Epoll_valid e"
  shows "main argv env wq qs =
           Some (1, tr3 @ closes [Epoll_fd e, Listener_fd l, SignalFd_fd s])"
  using main_exit1 [OF assms] teardown_append [of s l e None tr3 "[]"]
  by (simp add: teardown_closes)

lemma main_exit1_no_wait:
  assumes "startup env (select_port argv) = ((s, l, e), tr3)"
    and "\<not> SignalFd_valid s \<or> \<not> Listener_valid l \<or> \<not> Epoll_valid e"
  shows "main argv env wq qs =
           Some (1, tr3 @ closes [Epoll_fd e, Listener_fd l, SignalFd_fd s]) \<and>
         \<not> list_ex is_wait (tr3 @ closes [Epoll_fd e, Listener_fd l, SignalFd_fd s])"
proof -
  have tr3: "tr3 = snd (startup env (select_port argv))" using assms(1) by simp
  show ?thesis
    using main_exit1_trace [OF assms] startup_no_wait [of env "select_port argv"]
      closes_no_wait [of "[Epoll_fd e, Listener_fd l, SignalFd_fd s]"]
    by (simp add: tr3)
qed

lemma main_exit0_trace:
  assumes "startup env (select_port argv) = ((s, l, e), tr3)"
    and "SignalFd_valid s" "Listener_valid l" "Epoll_valid e"
    and "while_loop (fcntl_getfl_ret env) wq qs (loop_entry s l e (select_port argv) tr3) = Some (qs', p')"
  shows "main argv env wq qs =
           Some (0, out p' @ [Print [S (''Server stopped'' @ nl)]] @
                    closes ((case client p' of None \<Rightarrow> [] | Some cl \<Rightarrow> [Client_fd cl]) @
                      [Epoll_fd (ep p'), Listener_fd (lst p'), SignalFd_fd (sfd p')]))"
  using main_exit0 [OF assms] by (simp add: teardown_closes)

lemma startup_env_bind_fail:
  "startup env_bind_fail port =
     ((SignalFd [1, 15] (UniqueFd 3), Listener (UniqueFd (- 1)), Epoll (UniqueFd 5)),
      [SysSigprocmaskBlock [1, 15], SysSignalfd [1, 15], SysSocket, SysSetsockoptReuseaddr 4,
       SysBind 4 0 port, SysClose 4, SysEpollCreate1])"
  by (simp add: run_eval env_ok_def env_bind_fail_def)

section \<open>Handles: lemmas\<close>

lemma distinct_filter_nth:
  "distinct (filter P xs) \<longleftrightarrow>
     (\<forall>i<length xs. \<forall>j<length xs. i \<noteq> j \<longrightarrow> P (xs ! i) \<longrightarrow> xs ! i \<noteq> xs ! j)"
proof (induction xs)
  case Nil
  then show ?case by simp
next
  case (Cons x xs)
  show ?case
  proof
    assume d: "distinct (filter P (x # xs))"
    show "\<forall>i<length (x # xs). \<forall>j<length (x # xs). i \<noteq> j \<longrightarrow> P ((x # xs) ! i) \<longrightarrow> (x # xs) ! i \<noteq> (x # xs) ! j"
    proof (intro allI impI)
      fix i j
      assume ij: "i < length (x # xs)" "j < length (x # xs)" "i \<noteq> j" "P ((x # xs) ! i)"
      from d have dx: "distinct (filter P xs)" by (simp split: if_splits)
      show "(x # xs) ! i \<noteq> (x # xs) ! j"
      proof (cases i)
        case 0
        with ij obtain j' where j: "j = Suc j'" "j' < length xs" by (cases j) auto
        from 0 ij d have "x \<notin> set (filter P xs)" by simp
        with 0 ij j show ?thesis by (auto simp: in_set_conv_nth)
      next
        case (Suc i')
        show ?thesis
        proof (cases j)
          case 0
          show ?thesis
          proof
            assume e: "(x # xs) ! i = (x # xs) ! j"
            with 0 Suc ij have "P x" "x \<in> set xs" by (auto simp: in_set_conv_nth)
            with d show False by simp
          qed
        next
          case (Suc j')
          with \<open>i = Suc i'\<close> ij dx Cons.IH show ?thesis by auto
        qed
      qed
    qed
  next
    assume r: "\<forall>i<length (x # xs). \<forall>j<length (x # xs). i \<noteq> j \<longrightarrow> P ((x # xs) ! i) \<longrightarrow> (x # xs) ! i \<noteq> (x # xs) ! j"
    have "\<forall>i<length xs. \<forall>j<length xs. i \<noteq> j \<longrightarrow> P (xs ! i) \<longrightarrow> xs ! i \<noteq> xs ! j"
    proof (intro allI impI)
      fix i j assume "i < length xs" "j < length xs" "i \<noteq> j" "P (xs ! i)"
      with r [rule_format, of "Suc i" "Suc j"] show "xs ! i \<noteq> xs ! j" by simp
    qed
    with Cons.IH have dx: "distinct (filter P xs)" by simp
    have "x \<notin> set xs" if "P x"
    proof
      assume "x \<in> set xs"
      then obtain j where "j < length xs" "xs ! j = x" by (auto simp: in_set_conv_nth)
      with r [rule_format, of 0 "Suc j"] that show False by simp
    qed
    with dx show "distinct (filter P (x # xs))" by simp
  qed
qed

lemma unique_owners_nth:
  "unique_owners h \<longleftrightarrow>
     (\<forall>i<length h. \<forall>j<length h. i \<noteq> j \<longrightarrow> ufd (h ! i) \<noteq> - 1 \<longrightarrow> ufd (h ! i) \<noteq> ufd (h ! j))"
  unfolding unique_owners_def owned_def
  by (simp add: distinct_filter_nth [of "\<lambda>x. x \<noteq> - 1" "map ufd h"])


lemma unique_ownersD:
  "unique_owners h \<Longrightarrow> i < length h \<Longrightarrow> j < length h \<Longrightarrow> i \<noteq> j \<Longrightarrow>
   ufd (h ! i) \<noteq> - 1 \<Longrightarrow> ufd (h ! i) \<noteq> ufd (h ! j)"
  by (simp add: unique_owners_nth)

lemma unique_move_ctor:
  assumes a: "a < length h" and uo: "unique_owners h"
  shows "unique_owners (store_move_ctor a h)"
  unfolding unique_owners_nth store_move_ctor_def
proof (intro allI impI)
  fix i j
  let ?h = "h[a := UniqueFd (- 1)] @ [UniqueFd (ufd (h ! a))]"
  assume ij: "i < length ?h" "j < length ?h" "i \<noteq> j" "ufd (?h ! i) \<noteq> - 1"
  have f: "ufd (?h ! k) = (if k = length h then ufd (h ! a) else if k = a then - 1 else ufd (h ! k))"
    if "k < length ?h" for k
    using that a by (simp add: nth_append nth_list_update)
  from ij have i: "i \<le> length h" and j: "j \<le> length h" by simp_all
  show "ufd (?h ! i) \<noteq> ufd (?h ! j)"
  proof (cases "i = length h")
    case True
    with ij f [of i] have va: "ufd (h ! a) \<noteq> - 1" by simp
    from True ij j have jl: "j < length h" by simp
    show ?thesis
    proof (cases "j = a")
      case True
      with f [OF ij(1)] f [OF ij(2)] \<open>i = length h\<close> va a show ?thesis by simp
    next
      case False
      from unique_ownersD [OF uo a jl _ va] False have "ufd (h ! a) \<noteq> ufd (h ! j)" by simp
      with f [OF ij(1)] f [OF ij(2)] \<open>i = length h\<close> False jl show ?thesis by simp
    qed
  next
    case False
    with i have il: "i < length h" by simp
    from False ij f [of i] have ia: "i \<noteq> a" and vi: "ufd (h ! i) \<noteq> - 1"
      by (auto split: if_splits)
    show ?thesis
    proof (cases "j = length h")
      case True
      from unique_ownersD [OF uo il a ia vi] have "ufd (h ! i) \<noteq> ufd (h ! a)" .
      with f [OF ij(1)] f [OF ij(2)] True False ia show ?thesis by simp
    next
      case jn: False
      with j have jl: "j < length h" by simp
      show ?thesis
      proof (cases "j = a")
        case True
        with f [OF ij(1)] f [OF ij(2)] False ia vi jn show ?thesis by simp
      next
        case ja: False
        from unique_ownersD [OF uo il jl ij(3) vi]
        have "ufd (h ! i) \<noteq> ufd (h ! j)" .
        with f [OF ij(1)] f [OF ij(2)] False ia jn ja show ?thesis by simp
      qed
    qed
  qed
qed


lemma unique_move_assign:
  assumes t: "this < length h" and a: "a < length h" and ne: "this \<noteq> a"
    and uo: "unique_owners h"
  shows "unique_owners (h[this := UniqueFd (ufd (h ! a)), a := UniqueFd (- 1)])"
  unfolding unique_owners_nth
proof (intro allI impI)
  fix i j
  let ?h = "h[this := UniqueFd (ufd (h ! a)), a := UniqueFd (- 1)]"
  assume ij: "i < length ?h" "j < length ?h" "i \<noteq> j" "ufd (?h ! i) \<noteq> - 1"
  have f: "ufd (?h ! k) = (if k = a then - 1 else if k = this then ufd (h ! a) else ufd (h ! k))"
    if "k < length h" for k
    using that by (simp add: nth_list_update)
  from ij have il: "i < length h" and jl: "j < length h" by simp_all
  from ij f [OF il] have ia: "i \<noteq> a" by auto
  show "ufd (?h ! i) \<noteq> ufd (?h ! j)"
  proof (cases "i = this")
    case True
    with ij f [OF il] ia have va: "ufd (h ! a) \<noteq> - 1" by simp
    show ?thesis
    proof (cases "j = a")
      case True
      with f [OF il] f [OF jl] \<open>i = this\<close> ia va show ?thesis by simp
    next
      case False
      from unique_ownersD [OF uo a jl _ va] False have "ufd (h ! a) \<noteq> ufd (h ! j)" by simp
      with f [OF il] f [OF jl] \<open>i = this\<close> ia False ij(3) show ?thesis by simp
    qed
  next
    case False
    with ij f [OF il] ia have vi: "ufd (h ! i) \<noteq> - 1" by simp
    show ?thesis
    proof (cases "j = a")
      case True
      with f [OF il] f [OF jl] False ia vi show ?thesis by simp
    next
      case ja: False
      show ?thesis
      proof (cases "j = this")
        case True
        from unique_ownersD [OF uo il a ia vi] have "ufd (h ! i) \<noteq> ufd (h ! a)" .
        with f [OF il] f [OF jl] False ia ja True show ?thesis by simp
      next
        case jt: False
        from unique_ownersD [OF uo il jl ij(3) vi] have "ufd (h ! i) \<noteq> ufd (h ! j)" .
        with f [OF il] f [OF jl] False ia ja jt show ?thesis by simp
      qed
    qed
  qed
qed


lemma unique_dtor:
  assumes uo: "unique_owners h"
  shows "unique_owners (h[a := UniqueFd (- 1)])"
  unfolding unique_owners_nth
proof (intro allI impI)
  fix i j
  let ?h = "h[a := UniqueFd (- 1)]"
  assume ij: "i < length ?h" "j < length ?h" "i \<noteq> j" "ufd (?h ! i) \<noteq> - 1"
  have f: "ufd (?h ! k) = (if k = a then - 1 else ufd (h ! k))" if "k < length h" for k
    using that by (simp add: nth_list_update)
  from ij have il: "i < length h" and jl: "j < length h" by simp_all
  from ij f [OF il] have ia: "i \<noteq> a" and vi: "ufd (h ! i) \<noteq> - 1" by (auto split: if_splits)
  from unique_ownersD [OF uo il jl ij(3) vi] have "ufd (h ! i) \<noteq> ufd (h ! j)" .
  with f [OF il] f [OF jl] ia vi show "ufd (?h ! i) \<noteq> ufd (?h ! j)" by simp
qed

lemma unique_wrap:
  assumes "unique_owners h" "fd \<notin> set (owned h)"
  shows "unique_owners (store_wrap fd h)"
proof -
  have "owned (store_wrap fd h) = owned h @ (if fd \<noteq> - 1 then [fd] else [])"
    by (simp add: owned_def store_wrap_def)
  with assms show ?thesis by (simp add: unique_owners_def)
qed

lemma store_move_assign_eq:
  assumes "this < length h" "a < length h" "this \<noteq> a"
  shows "store_move_assign this a (h, tr) =
           (h[this := UniqueFd (ufd (h ! a)), a := UniqueFd (- 1)], tr @ closes [ufd (h ! this)])"
  using assms
  by (simp add: store_move_assign_def store_reset_def UniqueFd_reset_def closes_def)

lemma store_dtor_eq:
  "store_dtor a (h, tr) = (h[a := UniqueFd (- 1)], tr @ closes [ufd (h ! a)])"
  by (simp add: store_dtor_def store_reset_def UniqueFd_reset_def closes_def)


section \<open>Registration: lemmas\<close>

lemma track_append:
  "track R (a @ b) = (case track R a of None \<Rightarrow> None | Some R' \<Rightarrow> track R' b)"
  by (induction a arbitrary: R) (auto split: option.splits)

lemma fresh_track_append:
  "fresh_track opn (a @ b) =
     (case fresh_track opn a of None \<Rightarrow> None | Some opn' \<Rightarrow> fresh_track opn' b)"
  by (induction a arbitrary: opn) (auto split: option.splits)

lemmas track_simps = track_append track_step_def

lemma steps_ok_Nil: "steps_ok ef sf lf c [] c"
  by (simp add: steps_ok_def)

lemma steps_okD:
  assumes "steps_ok ef sf lf c es c'" "reg_inv ef sf lf c R opn" "fresh_track opn es = Some opn'"
  shows "\<exists>R'. track R es = Some R' \<and> reg_inv ef sf lf c' R' opn'"
proof -
  from assms(1) have "reg_inv ef sf lf c R opn \<longrightarrow>
        (case fresh_track opn es of
           None \<Rightarrow> True
         | Some opn' \<Rightarrow> (\<exists>R'. track R es = Some R' \<and> reg_inv ef sf lf c' R' opn'))"
    unfolding steps_ok_def by blast
  with assms(2,3) show ?thesis by simp
qed

lemma steps_ok_trans:
  assumes "steps_ok ef sf lf c es1 c1" "steps_ok ef sf lf c1 es2 c2"
  shows "steps_ok ef sf lf c (es1 @ es2) c2"
  unfolding steps_ok_def
proof (intro allI impI)
  fix R opn
  assume i: "reg_inv ef sf lf c R opn"
  show "case fresh_track opn (es1 @ es2) of None \<Rightarrow> True
        | Some opn' \<Rightarrow> \<exists>R'. track R (es1 @ es2) = Some R' \<and> reg_inv ef sf lf c2 R' opn'"
  proof (cases "fresh_track opn es1")
    case None
    then show ?thesis by (simp add: fresh_track_append)
  next
    case (Some o1)
    from steps_okD [OF assms(1) i Some] obtain R1 where
      r1: "track R es1 = Some R1" "reg_inv ef sf lf c1 R1 o1"
      by blast
    show ?thesis
    proof (cases "fresh_track o1 es2")
      case None
      with Some show ?thesis by (simp add: fresh_track_append)
    next
      case o2: (Some o2)
      from steps_okD [OF assms(2) r1(2) o2] obtain R2 where
        "track R1 es2 = Some R2" "reg_inv ef sf lf c2 R2 o2"
        by blast
      with Some o2 r1(1) show ?thesis
        by (simp add: fresh_track_append track_append)
    qed
  qed
qed

lemma steps_ok_inert:
  assumes "\<forall>ev\<in>set es. inert ev"
  shows "steps_ok ef sf lf c es c"
proof -
  have t: "track R es = Some R" for R
    using assms by (induction es) (auto simp: inert_def)
  have f: "fresh_track opn es = Some opn" for opn
    using assms by (induction es) (auto simp: inert_def)
  show ?thesis by (simp add: steps_ok_def t f)
qed

lemma inert_simps:
  "inert (Print ts)" "inert (SysRead fd)" "inert (SysRecv fd cap)" "inert (SysEpollWait fd)"
  "nf < 0 \<Longrightarrow> inert (SysAccept lfd nf)"
  by (simp_all add: inert_def track_step_def fresh_step_def)

lemma steps_ok_admit:
  assumes "0 \<le> nf"
  shows "steps_ok ef sf lf None (admit_events g lf ef nf) (Some (Client (UniqueFd nf)))"
  unfolding steps_ok_def
proof (intro allI impI)
  fix R opn
  assume i: "reg_inv ef sf lf None R opn"
  have cf: "Client_fd (Client (UniqueFd nf)) = nf" by (simp add: Client_fd_def UniqueFd_get_def)
  show "case fresh_track opn (admit_events g lf ef nf) of None \<Rightarrow> True
        | Some opn' \<Rightarrow> \<exists>R'. track R (admit_events g lf ef nf) = Some R' \<and>
            reg_inv ef sf lf (Some (Client (UniqueFd nf))) R' opn'"
  proof (cases "nf \<in> set opn")
    case True
    with assms show ?thesis by (simp add: admit_events_def fresh_step_def)
  next
    case False
    with assms have f: "fresh_track opn (admit_events g lf ef nf) = Some (nf # opn)"
      by (simp add: admit_events_def fresh_step_def)
    have t: "track R (admit_events g lf ef nf) = Some ((ef, nf) # R)"
      by (simp add: admit_events_def track_step_def)
    have "reg_inv ef sf lf (Some (Client (UniqueFd nf))) ((ef, nf) # R) (nf # opn)"
      using i False assms by (auto simp: reg_inv_def cset_def cf)
    with f t show ?thesis by simp
  qed
qed

lemma steps_ok_reject:
  assumes "0 \<le> nf"
  shows "steps_ok ef sf lf c (reject_events lf nf) c"
  unfolding steps_ok_def
proof (intro allI impI)
  fix R opn
  assume i: "reg_inv ef sf lf c R opn"
  show "case fresh_track opn (reject_events lf nf) of None \<Rightarrow> True
        | Some opn' \<Rightarrow> \<exists>R'. track R (reject_events lf nf) = Some R' \<and> reg_inv ef sf lf c R' opn'"
  proof (cases "nf \<in> set opn")
    case True
    with assms show ?thesis by (simp add: reject_events_def fresh_step_def)
  next
    case False
    with assms have f: "fresh_track opn (reject_events lf nf) = Some opn"
      by (simp add: reject_events_def fresh_step_def)
    from i have s: "set R \<subseteq> {ef} \<times> set opn" "ef \<in> set opn"
      by (auto simp: reg_inv_def)
    with False have n: "nf \<notin> snd ` set R" by auto
    from s False have "filter (\<lambda>p. fst p \<noteq> nf) R = R"
      by (auto simp: filter_id_conv)
    with n have t: "track R (reject_events lf nf) = Some R"
      by (simp add: reject_events_def track_step_def)
    from f t i show ?thesis by simp
  qed
qed

lemma steps_ok_drop:
  "steps_ok ef sf lf (Some cl) (drop_events ef (Client_fd cl) msg) None"
  unfolding steps_ok_def
proof (intro allI impI)
  fix R opn
  let ?cfd = "Client_fd cl"
  let ?R1 = "removeAll (ef, ?cfd) R"
  assume i: "reg_inv ef sf lf (Some cl) R opn"
  then have ne: "?cfd \<noteq> sf" "?cfd \<noteq> lf" "?cfd \<noteq> ef" by (auto simp: reg_inv_def)
  from i have "set R \<subseteq> {ef} \<times> {sf, lf, ?cfd}"
    by (simp add: reg_inv_def cset_def insert_commute)
  then have s1: "set ?R1 \<subseteq> {ef} \<times> {sf, lf}" by auto
  with ne have n1: "?cfd \<notin> snd ` set ?R1" by auto
  have s2: "set (filter (\<lambda>p. fst p \<noteq> ?cfd) ?R1) \<subseteq> {ef} \<times> {sf, lf}"
    using s1 by auto
  have t: "track R (drop_events ef ?cfd msg) = Some (filter (\<lambda>p. fst p \<noteq> ?cfd) ?R1)"
    using n1 by (simp add: drop_events_def track_step_def)
  have f: "fresh_track opn (drop_events ef ?cfd msg) = Some (removeAll ?cfd opn)"
    by (simp add: drop_events_def fresh_step_def)
  from i ne have "{sf, lf, ef} \<subseteq> set (removeAll ?cfd opn)"
    by (auto simp: reg_inv_def)
  with s2 have "reg_inv ef sf lf None (filter (\<lambda>p. fst p \<noteq> ?cfd) ?R1) (removeAll ?cfd opn)"
    by (simp add: reg_inv_def cset_def)
  with t f show "case fresh_track opn (drop_events ef ?cfd msg) of None \<Rightarrow> True
        | Some opn' \<Rightarrow> \<exists>R'. track R (drop_events ef ?cfd msg) = Some R' \<and>
            reg_inv ef sf lf None R' opn'"
    by simp
qed

lemma steps_ok_vacuous:
  "Client_fd cl = - 1 \<Longrightarrow> steps_ok ef sf lf (Some cl) es c'"
  by (simp add: steps_ok_def reg_inv_def)


lemma accept_loop_steps:
  "accept_loop g l e q c tr = Some (q', c', tr') \<Longrightarrow>
   \<exists>es. tr' = tr @ es \<and> steps_ok (Epoll_fd e) sf (Listener_fd l) c es c'"
proof (induction q arbitrary: c tr)
  case Nil
  then show ?case by simp
next
  case (Cons nf q)
  let ?lf = "Listener_fd l" and ?ef = "Epoll_fd e"
  show ?case
  proof (cases "nf < 0")
    case True
    with Cons.prems have "c' = c" "tr' = tr @ [SysAccept ?lf nf]"
      by (simp_all add: Listener_accept_one_def Listener_fd_def)
    moreover have "steps_ok ?ef sf ?lf c [SysAccept ?lf nf] c"
      using True by (intro steps_ok_inert) (simp add: inert_simps)
    ultimately show ?thesis by blast
  next
    case nn: False
    show ?thesis
    proof (cases c)
      case None
      let ?c1 = "Some (Client (UniqueFd nf))"
      from Cons.prems nn None have
        "accept_loop g l e q ?c1 (tr @ admit_events g ?lf ?ef nf) = Some (q', c', tr')"
        by (simp add: Listener_accept_one_def Client_ctor_def set_nonblock_def Epoll_add_in_def
            admit_events_def Listener_fd_def Epoll_fd_def Client_fd_def UniqueFd_get_def)
      from Cons.IH [OF this] obtain es where
        es: "tr' = (tr @ admit_events g ?lf ?ef nf) @ es" "steps_ok ?ef sf ?lf ?c1 es c'"
        by blast
      from nn have "steps_ok ?ef sf ?lf None (admit_events g ?lf ?ef nf) ?c1"
        by (intro steps_ok_admit) simp
      from steps_ok_trans [OF this es(2)] es(1) None show ?thesis by auto
    next
      case (Some cl)
      from Cons.prems nn Some have
        "accept_loop g l e q c (tr @ reject_events ?lf nf) = Some (q', c', tr')"
        by (simp add: Listener_accept_one_def reject_events_def Listener_fd_def)
      from Cons.IH [OF this] obtain es where
        es: "tr' = (tr @ reject_events ?lf nf) @ es" "steps_ok ?ef sf ?lf c es c'"
        by blast
      from nn have "steps_ok ?ef sf ?lf c (reject_events ?lf nf) c"
        by (intro steps_ok_reject) simp
      from steps_ok_trans [OF this es(2)] es(1) show ?thesis by auto
    qed
  qed
qed

lemma recv_loop_steps:
  "recv_loop e cl q tr = Some (q', c', tr') \<Longrightarrow>
   \<exists>es. tr' = tr @ es \<and> steps_ok (Epoll_fd e) sf lf (Some cl) es c'"
proof (induction q arbitrary: tr)
  case Nil
  then show ?case by simp
next
  case (Cons a q)
  obtain r err where a: "a = (r, err)" by (cases a)
  let ?cfd = "Client_fd cl" and ?ef = "Epoll_fd e"
  show ?case
  proof (cases "0 < r")
    case True
    with Cons.prems a have
      "recv_loop e cl q (tr @ recv_events ?cfd (r, err)) = Some (q', c', tr')"
      by (simp add: Client_recv_some_def recv_events_def Client_fd_def)
    from Cons.IH [OF this] obtain es where
      es: "tr' = (tr @ recv_events ?cfd (r, err)) @ es" "steps_ok ?ef sf lf (Some cl) es c'"
      by blast
    have "steps_ok ?ef sf lf (Some cl) (recv_events ?cfd (r, err)) (Some cl)"
      by (intro steps_ok_inert) (simp add: recv_events_def inert_simps)
    from steps_ok_trans [OF this es(2)] es(1) show ?thesis by auto
  next
    case False
    then have r0: "r \<le> 0" by simp
    show ?thesis
    proof (cases "?cfd = - 1")
      case True
      from Cons.prems a False obtain es where "tr' = tr @ es"
        by (auto simp: Client_recv_some_def client_reset_def Client_dtor_def UniqueFd_dtor_def
            UniqueFd_reset_def Epoll_del_def Let_def split: if_splits)
      with steps_ok_vacuous [OF True] show ?thesis by blast
    next
      case v: False
      have e: "\<forall>re\<in>set ([] :: (int \<times> int) list). 0 < fst re" by simp
      from recv_loop_run [OF e r0 v, of e err q tr] Cons.prems a
      have c': "c' = (if r = 0 then None
                     else if err = EAGAIN \<or> err = EWOULDBLOCK then Some cl else None)"
        and tr': "tr' = tr @
         (if r = 0 then drop_events ?ef ?cfd ''Client closed connection''
          else if err = EAGAIN \<or> err = EWOULDBLOCK then [SysRecv ?cfd 4096]
          else drop_events ?ef ?cfd ''Client recv error'')"
        by simp_all
      have "steps_ok ?ef sf lf (Some cl) [SysRecv ?cfd 4096] (Some cl)"
        by (intro steps_ok_inert) (simp add: inert_simps)
      with steps_ok_drop [of ?ef sf lf cl] c' tr' show ?thesis by auto
    qed
  qed
qed

lemma drain_loop_steps:
  "drain_loop s b q tr = Some (b', q', tr') \<Longrightarrow>
   \<exists>es. tr' = tr @ es \<and> (\<forall>ev\<in>set es. inert ev)"
proof (induction q arbitrary: b tr)
  case Nil
  then show ?case by simp
next
  case (Cons a q)
  obtain r g where a: "a = (r, g)" by (cases a)
  let ?fd = "UniqueFd_get (sig_fd s)"
  show ?case
  proof (cases "r = sizeof_si")
    case False
    with Cons.prems a have "tr' = tr @ [SysRead ?fd]" by auto
    then show ?thesis by (auto simp: inert_simps)
  next
    case True
    have "\<exists>b1 ts. drain_loop s b1 q (tr @ [SysRead ?fd, Print ts]) = Some (b', q', tr')"
    proof -
      consider (hup) "uint g = SIGHUP" | (trm) "uint g \<noteq> SIGHUP" "uint g = SIGTERM"
        | (oth) "uint g \<noteq> SIGHUP" "uint g \<noteq> SIGTERM" by blast
      then show ?thesis
      proof cases
        case hup
        with Cons.prems a True have
          "drain_loop s b q (tr @ [SysRead ?fd, Print [S (''[signal] SIGHUP'' @ nl)]])
             = Some (b', q', tr')"
          by simp
        then show ?thesis by blast
      next
        case trm
        with Cons.prems a True have
          "drain_loop s True q (tr @ [SysRead ?fd,
             Print [S (''[signal] SIGTERM -> shutdown'' @ nl)]]) = Some (b', q', tr')"
          by simp
        then show ?thesis by blast
      next
        case oth
        with Cons.prems a True have
          "drain_loop s b q (tr @ [SysRead ?fd, Print [S ''[signal] '', N (uint g), S nl]])
             = Some (b', q', tr')"
          by simp
        then show ?thesis by blast
      qed
    qed
    then obtain b1 ts where
      "drain_loop s b1 q (tr @ [SysRead ?fd, Print ts]) = Some (b', q', tr')"
      by blast
    from Cons.IH [OF this] obtain es where
      "tr' = (tr @ [SysRead ?fd, Print ts]) @ es" "\<forall>ev\<in>set es. inert ev"
      by blast
    then have "tr' = tr @ ([SysRead ?fd, Print ts] @ es)"
      "\<forall>ev\<in>set ([SysRead ?fd, Print ts] @ es). inert ev"
      by (simp_all add: inert_simps)
    then show ?thesis by blast
  qed
qed

lemma for_events_static:
  "for_events g fds qs p = Some (qs', p') \<Longrightarrow> sfd p' = sfd p \<and> lst p' = lst p \<and> ep p' = ep p"
proof (induction fds arbitrary: qs p)
  case Nil
  then show ?case by simp
next
  case (Cons fd fds)
  from Cons.prems obtain qs1 p1 where
    "for_events g fds qs1 p1 = Some (qs', p')" "sfd p1 = sfd p" "lst p1 = lst p" "ep p1 = ep p"
    by (fastforce split: if_splits option.splits)
  with Cons.IH show ?case by metis
qed

lemma while_loop_static:
  "while_loop g wq qs p = Some (qs', p') \<Longrightarrow> sfd p' = sfd p \<and> lst p' = lst p \<and> ep p' = ep p"
proof (induction wq arbitrary: qs p)
  case Nil
  then show ?case by (simp split: if_splits)
next
  case (Cons fds wq)
  show ?case
  proof (cases "stop p")
    case True
    with Cons.prems show ?thesis by simp
  next
    case False
    with Cons.prems obtain qs1 p1 where
      f: "for_events g fds qs (p\<lparr>out := Epoll_wait (ep p) (out p)\<rparr>) = Some (qs1, p1)"
      and w: "while_loop g wq qs1 p1 = Some (qs', p')"
      by (auto split: option.splits)
    from for_events_static [OF f] Cons.IH [OF w] show ?thesis by simp
  qed
qed


lemma for_events_steps:
  "for_events g fds qs p = Some (qs', p') \<Longrightarrow>
   \<exists>es. out p' = out p @ es \<and>
        steps_ok (Epoll_fd (ep p)) (SignalFd_fd (sfd p)) (Listener_fd (lst p)) (client p) es
          (client p')"
proof (induction fds arbitrary: qs p)
  case Nil
  then show ?case by (simp add: steps_ok_Nil)
next
  case (Cons fd fds)
  let ?sf = "SignalFd_fd (sfd p)" and ?lf = "Listener_fd (lst p)" and ?ef = "Epoll_fd (ep p)"
  have step: "\<exists>es. out p' = out p @ es \<and> steps_ok ?ef ?sf ?lf (client p) es (client p')"
    if f: "for_events g fds qs1 p1 = Some (qs', p')"
      and st: "sfd p1 = sfd p" "lst p1 = lst p" "ep p1 = ep p"
      and o: "out p1 = out p @ es1" "steps_ok ?ef ?sf ?lf (client p) es1 (client p1)"
    for qs1 p1 es1
  proof -
    from Cons.IH [OF f] st obtain es where
      es: "out p' = out p1 @ es" "steps_ok ?ef ?sf ?lf (client p1) es (client p')"
      by auto
    from steps_ok_trans [OF o(2) es(2)] es(1) o(1) show ?thesis by auto
  qed
  show ?case
  proof (cases "fd = ?sf")
    case True
    with Cons.prems obtain b rq tr where
      d: "drain_loop (sfd p) False (read_q qs) (out p) = Some (b, rq, tr)"
      and f: "for_events g fds (qs\<lparr>read_q := rq\<rparr>) (p\<lparr>stop := (stop p \<or> b), out := tr\<rparr>)
                = Some (qs', p')"
      by (auto simp: SignalFd_drain_and_handle_def split: option.splits)
    from drain_loop_steps [OF d] obtain es1 where
      e1: "tr = out p @ es1" "\<forall>ev\<in>set es1. inert ev" by blast
    from steps_ok_inert [OF e1(2)] have "steps_ok ?ef ?sf ?lf (client p) es1 (client p)" .
    with step [OF f, of es1] e1(1) show ?thesis by simp
  next
    case nsig: False
    show ?thesis
    proof (cases "fd = ?lf")
      case True
      with nsig Cons.prems obtain aq c tr where
        d: "accept_loop g (lst p) (ep p) (accept_q qs) (client p) (out p) = Some (aq, c, tr)"
        and f: "for_events g fds (qs\<lparr>accept_q := aq\<rparr>) (p\<lparr>client := c, out := tr\<rparr>)
                  = Some (qs', p')"
        by (auto split: option.splits)
      from accept_loop_steps [OF d, of ?sf] obtain es1 where
        "tr = out p @ es1" "steps_ok ?ef ?sf ?lf (client p) es1 c" by blast
      with step [OF f, of es1] show ?thesis by simp
    next
      case nlst: False
      show ?thesis
      proof (cases "\<exists>cl. client p = Some cl \<and> fd = Client_fd cl")
        case True
        then obtain cl where cl: "client p = Some cl" "fd = Client_fd cl" by blast
        with nsig nlst Cons.prems obtain rq c tr where
          d: "recv_loop (ep p) cl (recv_q qs) (out p) = Some (rq, c, tr)"
          and f: "for_events g fds (qs\<lparr>recv_q := rq\<rparr>) (p\<lparr>client := c, out := tr\<rparr>)
                    = Some (qs', p')"
          by (auto split: option.splits)
        from recv_loop_steps [OF d, of ?sf ?lf] cl obtain es1 where
          "tr = out p @ es1" "steps_ok ?ef ?sf ?lf (client p) es1 c" by auto
        with step [OF f, of es1] show ?thesis by simp
      next
        case False
        with nsig nlst Cons.prems have f: "for_events g fds qs p = Some (qs', p')"
          by (auto split: option.splits)
        from step [OF f, of "[]"] show ?thesis by (simp add: steps_ok_Nil)
      qed
    qed
  qed
qed

lemma while_loop_steps:
  "while_loop g wq qs p = Some (qs', p') \<Longrightarrow>
   \<exists>es. out p' = out p @ es \<and>
        steps_ok (Epoll_fd (ep p)) (SignalFd_fd (sfd p)) (Listener_fd (lst p)) (client p) es
          (client p')"
proof (induction wq arbitrary: qs p)
  case Nil
  then show ?case by (auto simp: steps_ok_Nil split: if_splits)
next
  case (Cons fds wq)
  let ?sf = "SignalFd_fd (sfd p)" and ?lf = "Listener_fd (lst p)" and ?ef = "Epoll_fd (ep p)"
  show ?case
  proof (cases "stop p")
    case True
    with Cons.prems show ?thesis by (auto simp: steps_ok_Nil)
  next
    case False
    let ?p0 = "p\<lparr>out := Epoll_wait (ep p) (out p)\<rparr>"
    from False Cons.prems obtain qs1 p1 where
      f: "for_events g fds qs ?p0 = Some (qs1, p1)"
      and w: "while_loop g wq qs1 p1 = Some (qs', p')"
      by (auto split: option.splits)
    from for_events_static [OF f] have st: "sfd p1 = sfd p" "lst p1 = lst p" "ep p1 = ep p"
      by simp_all
    from for_events_steps [OF f] obtain es1 where
      e1: "out p1 = out p @ [SysEpollWait ?ef] @ es1"
        "steps_ok ?ef ?sf ?lf (client p) es1 (client p1)"
      by (auto simp: Epoll_wait_def Epoll_fd_def)
    from Cons.IH [OF w] st obtain es2 where
      e2: "out p' = out p1 @ es2" "steps_ok ?ef ?sf ?lf (client p1) es2 (client p')"
      by auto
    have "steps_ok ?ef ?sf ?lf (client p) [SysEpollWait ?ef] (client p)"
      by (intro steps_ok_inert) (simp add: inert_simps)
    from steps_ok_trans [OF this steps_ok_trans [OF e1(2) e2(2)]] e1(1) e2(1)
    show ?thesis by auto
  qed
qed


lemma track_closes_empty: "track [] (closes fds) = Some []"
  by (induction fds) (auto simp: closes_def track_step_def)

lemma track_Listener_ctor: "track [] (snd (Listener_ctor env port [])) = Some []"
  by (simp add: Listener_ctor_def Let_def set_nonblock_def UniqueFd_reset_def
      UniqueFd_default_def track_step_def)

lemma track_startup: "track [] (snd (startup env port)) = Some []"
  by (simp add: startup_trace track_append track_Listener_ctor track_step_def)

lemma fresh_track_startup:
  "\<not> listener_failed env \<Longrightarrow> fresh_track held (snd (startup env port)) = Some held"
  by (simp add: startup_trace listener_failed_def Listener_ctor_def Let_def set_nonblock_def
      UniqueFd_reset_def UniqueFd_default_def fresh_step_def)

lemma loop_entry_tracks:
  assumes "track [] tr3 = Some []" "fresh_track held tr3 = Some held"
  shows "track [] (out (loop_entry s l e port tr3)) =
           Some [(Epoll_fd e, Listener_fd l), (Epoll_fd e, SignalFd_fd s)]"
    and "fresh_track held (out (loop_entry s l e port tr3)) = Some held"
  using assms
  by (simp_all add: loop_entry_def Let_def Epoll_add_in_def Epoll_fd_def track_simps
      fresh_track_append fresh_step_def)

lemma track_final_no_client:
  assumes t: "track [] tr = Some R" and i: "reg_inv ef sf lf None R opn"
    and d: "distinct [sf, lf, ef]"
  shows "track [] (tr @ [Print msg, SysClose ef, SysClose lf, SysClose sf]) = Some []"
proof -
  from i have s: "set R \<subseteq> {ef} \<times> {sf, lf}" by (simp add: reg_inv_def cset_def)
  with d have n: "ef \<notin> snd ` set R" by auto
  from s have e: "filter (\<lambda>p. fst p \<noteq> ef) R = []" by (auto simp: filter_empty_conv)
  show ?thesis
    unfolding track_append t using n e by (simp add: track_step_def)
qed

lemma track_final_client:
  assumes t: "track [] tr = Some R" and i: "reg_inv ef sf lf (Some cl) R opn"
  shows "track [] (tr @ [Print msg, SysClose (Client_fd cl)]) = None"
proof -
  from i have "(ef, Client_fd cl) \<in> set R" by (simp add: reg_inv_def)
  then have "Client_fd cl \<in> snd ` set R" by force
  then show ?thesis
    unfolding track_append t by (simp add: track_step_def)
qed

section \<open>Dispatch: lemmas\<close>

lemma for_events_client_removed:
  assumes c: "client p = Some cl" and v: "Client_fd cl \<noteq> - 1"
    and ns: "Client_fd cl \<noteq> SignalFd_fd (sfd p)" and nl: "Client_fd cl \<noteq> Listener_fd (lst p)"
    and q: "recv_q qs = chunks @ (r, err) # rq" and pos: "\<forall>re\<in>set chunks. 0 < fst re"
    and cl: "r = 0 \<or> (r < 0 \<and> err \<noteq> EAGAIN \<and> err \<noteq> EWOULDBLOCK)"
  shows "for_events g (Client_fd cl # fds) qs p =
           for_events g fds (qs\<lparr>recv_q := rq\<rparr>)
             (p\<lparr>client := None,
                out := out p @ removal_events (Epoll_fd (ep p)) (Client_fd cl) chunks r\<rparr>)"
proof -
  from cl have r0: "r \<le> 0" by auto
  have "recv_loop (ep p) cl (recv_q qs) (out p) =
          Some (rq, None, out p @ removal_events (Epoll_fd (ep p)) (Client_fd cl) chunks r)"
    unfolding q removal_events_def
    using recv_loop_run [OF pos r0 v, of "ep p" err rq "out p"] cl by auto
  with c ns nl show ?thesis by simp
qed

lemma for_events_listener_admits:
  assumes c: "client p = None" and ls: "Listener_fd (lst p) \<noteq> SignalFd_fd (sfd p)"
    and q: "accept_q qs = nf # acc @ stopv # aq"
    and nf: "0 \<le> nf" and acc: "\<forall>x\<in>set acc. 0 \<le> x" and st: "stopv < 0"
  shows "for_events g (Listener_fd (lst p) # fds) qs p =
           for_events g fds (qs\<lparr>accept_q := aq\<rparr>)
             (p\<lparr>client := Some (Client (UniqueFd nf)),
                out := out p @ admission_events g (Listener_fd (lst p)) (Epoll_fd (ep p))
                                 nf acc stopv\<rparr>)"
proof -
  have "accept_loop g (lst p) (ep p) (accept_q qs) (client p) (out p) =
          Some (aq, Some (Client (UniqueFd nf)),
                out p @ admission_events g (Listener_fd (lst p)) (Epoll_fd (ep p)) nf acc stopv)"
    unfolding q c admission_events_def
    using accept_loop_empty_slot [OF nf acc st, of g "lst p" "ep p" aq "out p"] by simp
  with ls show ?thesis by simp
qed

lemma for_events_idle:
  "client p = None \<Longrightarrow> SignalFd_fd (sfd p) \<notin> set fds \<Longrightarrow> Listener_fd (lst p) \<notin> set fds \<Longrightarrow>
   for_events g fds qs p = Some (qs, p)"
  by (induction fds) auto

lemma while_loop_idle:
  assumes "\<not> stop p" "client p = None"
    and "\<forall>b\<in>set mids. SignalFd_fd (sfd p) \<notin> set b \<and> Listener_fd (lst p) \<notin> set b"
  shows "while_loop g (mids @ wq) qs p =
           while_loop g wq qs
             (p\<lparr>out := out p @ replicate (length mids) (SysEpollWait (Epoll_fd (ep p)))\<rparr>)"
  using assms
proof (induction mids arbitrary: p)
  case Nil
  then show ?case by simp
next
  case (Cons b mids)
  let ?p1 = "p\<lparr>out := Epoll_wait (ep p) (out p)\<rparr>"
  from Cons.prems have "for_events g b qs ?p1 = Some (qs, ?p1)"
    by (intro for_events_idle) simp_all
  with Cons.prems(1) have "while_loop g ((b # mids) @ wq) qs p = while_loop g (mids @ wq) qs ?p1"
    by simp
  also have "\<dots> = while_loop g wq qs
      (?p1\<lparr>out := out ?p1 @ replicate (length mids) (SysEpollWait (Epoll_fd (ep ?p1)))\<rparr>)"
    using Cons.prems by (intro Cons.IH) simp_all
  finally show ?case
    by (simp add: Epoll_wait_def Epoll_fd_def replicate_append_same)
qed

lemma for_events_stop_persists:
  "for_events g fds qs p = Some (qs', p') \<Longrightarrow> stop p \<Longrightarrow> stop p'"
proof (induction fds arbitrary: qs p)
  case Nil
  then show ?case by simp
next
  case (Cons fd fds)
  from Cons.prems obtain qs1 p1 where
    "for_events g fds qs1 p1 = Some (qs', p')" "stop p1"
    by (fastforce split: if_splits option.splits)
  with Cons.IH show ?case by blast
qed

lemma startup_bind:
  "0 \<le> socket_ret env \<Longrightarrow>
   SysBind (socket_ret env) INADDR_ANY port \<in> set (snd (startup env port))"
  by (simp add: startup_trace Listener_ctor_def Let_def set_nonblock_def UniqueFd_reset_def
      UniqueFd_default_def)

lemma main_trace_startup:
  assumes "main argv env wq qs = Some (code, tr)"
  shows "set (snd (startup env (select_port argv))) \<subseteq> set tr"
proof -
  let ?port = "select_port argv"
  obtain s l e tr3 where su: "startup env ?port = ((s, l, e), tr3)"
    by (metis prod.exhaust)
  show ?thesis
  proof (cases "SignalFd_valid s \<and> Listener_valid l \<and> Epoll_valid e")
    case False
    then have "\<not> SignalFd_valid s \<or> \<not> Listener_valid l \<or> \<not> Epoll_valid e" by blast
    from main_exit1_trace [OF su this, of wq qs] assms su show ?thesis by auto
  next
    case True
    then have v: "SignalFd_valid s" "Listener_valid l" "Epoll_valid e" by simp_all
    let ?p0 = "loop_entry s l e ?port tr3"
    show ?thesis
    proof (cases "while_loop (fcntl_getfl_ret env) wq qs ?p0")
      case None
      from main_waiting [OF su v None] assms show ?thesis by simp
    next
      case (Some r)
      obtain qs' p' where r: "r = (qs', p')" by (cases r)
      from Some r have wl: "while_loop (fcntl_getfl_ret env) wq qs ?p0 = Some (qs', p')" by simp
      from while_loop_trace [OF wl] have "set (out ?p0) \<subseteq> set (out p')" by simp
      moreover have "set tr3 \<subseteq> set (out ?p0)"
        by (auto simp: loop_entry_def Let_def Epoll_add_in_def)
      ultimately have "set tr3 \<subseteq> set (out p')" by blast
      with main_exit0_trace [OF su v wl] assms su show ?thesis by auto
    qed
  qed
qed

section \<open>Signals\<close>

text \<open>
  C3. \<^verbatim>\<open>drain_and_handle\<close> reads signal events as long as a read returns a whole
  \<^verbatim>\<open>signalfd_siginfo\<close>. Every event drained leaves its read and one line: the SIGHUP
  line, the SIGTERM line, or the generic line with the number. The call returns true
  exactly when a SIGTERM was among the events drained, so SIGHUP never makes it true.
  The dispatch loop ors the result into the stop flag; once the flag is set the loop
  waits no more, a loop that ends has the flag set, and \<^verbatim>\<open>main\<close> then prints the
  last line, destroys its objects and returns 0. Nothing clears the flag: set before
  any part of a batch, it is set after it, whichever descriptors the batch reports.
\<close>

theorem signal_semantics:
  assumes "r \<noteq> sizeof_si"
  shows "SignalFd_drain_and_handle s (map (Pair sizeof_si) sigs @ (r, x) # rest) tr =
           Some (SIGTERM \<in> set (map uint sigs), rest,
                 tr @ concat (map (sig_events (SignalFd_fd s)) sigs) @ [SysRead (SignalFd_fd s)])
       \<and> (read_q qs = map (Pair sizeof_si) sigs @ (r, x) # rest \<longrightarrow>
            for_events g [SignalFd_fd (sfd p)] qs p =
              Some (qs\<lparr>read_q := rest\<rparr>,
                    p\<lparr>stop := (stop p \<or> SIGTERM \<in> set (map uint sigs)),
                      out := out p @ concat (map (sig_events (SignalFd_fd (sfd p))) sigs)
                                   @ [SysRead (SignalFd_fd (sfd p))]\<rparr>))
       \<and> (stop p \<longrightarrow> while_loop g wq qs p = Some (qs, p))
       \<and> (while_loop g wq qs p = Some (qs', p') \<longrightarrow> stop p')
       \<and> (startup env (select_port argv) = ((s, l, e), tr3) \<and>
            SignalFd_valid s \<and> Listener_valid l \<and> Epoll_valid e \<and>
            while_loop (fcntl_getfl_ret env) wq qs (loop_entry s l e (select_port argv) tr3)
              = Some (qs', p') \<longrightarrow>
            main argv env wq qs = Some (0, out p' @ [Print [S (''Server stopped'' @ nl)]]
                    @ teardown (sfd p') (lst p') (ep p') (client p') []))
       \<and> (for_events g fds qs p = Some (qs', p') \<and> stop p \<longrightarrow> stop p')"
proof -
  have d: "SignalFd_drain_and_handle s' (map (Pair sizeof_si) sigs @ (r, x) # rest) tr' =
           Some (SIGTERM \<in> set (map uint sigs), rest,
                 tr' @ concat (map (sig_events (SignalFd_fd s')) sigs) @ [SysRead (SignalFd_fd s')])"
    for s' tr'
    using drain_loop_run [OF assms, of s' False sigs x rest tr']
    by (simp add: SignalFd_drain_and_handle_def)
  have f: "read_q qs = map (Pair sizeof_si) sigs @ (r, x) # rest \<longrightarrow>
            for_events g [SignalFd_fd (sfd p)] qs p =
              Some (qs\<lparr>read_q := rest\<rparr>,
                    p\<lparr>stop := (stop p \<or> SIGTERM \<in> set (map uint sigs)),
                      out := out p @ concat (map (sig_events (SignalFd_fd (sfd p))) sigs)
                                   @ [SysRead (SignalFd_fd (sfd p))]\<rparr>)"
    using d [of "sfd p" "out p"] by simp
  have m: "main argv env wq qs = Some (0, out p' @ [Print [S (''Server stopped'' @ nl)]]
                    @ teardown (sfd p') (lst p') (ep p') (client p') [])"
    if "startup env (select_port argv) = ((s, l, e), tr3)"
      "SignalFd_valid s" "Listener_valid l" "Epoll_valid e"
      "while_loop (fcntl_getfl_ret env) wq qs (loop_entry s l e (select_port argv) tr3)
              = Some (qs', p')"
    using main_exit0 [OF that] .
  show ?thesis
    using d [of s tr] f m while_loop_stop [of g wq qs p qs' p'] while_loop_stopped [of p g wq qs]
      for_events_stop_persists [of g fds qs p qs' p']
    by blast
qed


theorem signal_semantics_witness:
  "- 1 \<noteq> sizeof_si
   \<and> SignalFd_drain_and_handle (SignalFd [1, 15] (UniqueFd 3))
        [(128, 1), (128, 15), (128, 10), (- 1, 0)] [] =
      Some (True, [],
        [SysRead 3, Print [S (''[signal] SIGHUP'' @ nl)],
         SysRead 3, Print [S (''[signal] SIGTERM -> shutdown'' @ nl)],
         SysRead 3, Print [S ''[signal] '', N 10, S nl],
         SysRead 3])
   \<and> main [''server''] env_ok [[3]]
        \<lparr>read_q = [(128, 1), (128, 15), (128, 10), (- 1, 0)], accept_q = [], recv_q = []\<rparr> =
      Some (0,
        [SysSigprocmaskBlock [1, 15], SysSignalfd [1, 15], SysSocket, SysSetsockoptReuseaddr 4,
         SysBind 4 0 12345, SysListen 4 4096, SysFcntlGetfl 4, SysFcntlSetfl 4 2050,
         SysEpollCreate1, SysEpollCtlAdd 5 3, SysEpollCtlAdd 5 4,
         Print [S ''Listening on port '', N 12345, S nl],
         SysEpollWait 5,
         SysRead 3, Print [S (''[signal] SIGHUP'' @ nl)],
         SysRead 3, Print [S (''[signal] SIGTERM -> shutdown'' @ nl)],
         SysRead 3, Print [S ''[signal] '', N 10, S nl],
         SysRead 3,
         Print [S (''Server stopped'' @ nl)],
         SysClose 5, SysClose 4, SysClose 3])
   \<and> for_events (\<lambda>_. 2) [4, 3]
        \<lparr>read_q = [(128, 1), (- 1, 0)], accept_q = [- 1], recv_q = []\<rparr>
        \<lparr>sfd = SignalFd [1, 15] (UniqueFd 3), lst = Listener (UniqueFd 4),
         ep = Epoll (UniqueFd 5), client = None, stop = True, out = []\<rparr> =
      Some (\<lparr>read_q = [], accept_q = [], recv_q = []\<rparr>,
        \<lparr>sfd = SignalFd [1, 15] (UniqueFd 3), lst = Listener (UniqueFd 4),
         ep = Epoll (UniqueFd 5), client = None, stop = True,
         out = [SysAccept 4 (- 1), SysRead 3, Print [S (''[signal] SIGHUP'' @ nl)], SysRead 3]\<rparr>)"
proof -
  let ?s = "SignalFd [1, 15] (UniqueFd 3)"
  let ?l = "Listener (UniqueFd 4)"
  let ?e = "Epoll (UniqueFd 5)"
  let ?qs = "\<lparr>read_q = [(128, 1), (128, 15), (128, 10), (- 1, 0)], accept_q = [], recv_q = []\<rparr>"
  let ?argv = "[''server'']"
  let ?tr3 = "snd (startup env_ok (select_port ?argv))"
  let ?p0 = "loop_entry ?s ?l ?e (select_port ?argv) ?tr3"
  obtain qs' p' where wl: "while_loop (fcntl_getfl_ret env_ok) [[3]] ?qs ?p0 = Some (qs', p')"
    and p': "sfd p' = ?s" "lst p' = ?l" "ep p' = ?e" "client p' = None"
      "out p' = out ?p0 @
        [SysEpollWait 5,
         SysRead 3, Print [S (''[signal] SIGHUP'' @ nl)],
         SysRead 3, Print [S (''[signal] SIGTERM -> shutdown'' @ nl)],
         SysRead 3, Print [S ''[signal] '', N 10, S nl],
         SysRead 3]"
    by (simp add: run_eval env_ok_def)
  have ne: "- 1 \<noteq> sizeof_si" by (simp add: sizeof_si_def)
  note th = signal_semantics [OF ne, of ?s "[1, 15, 10]" 0 "[]" "[]" ?qs "\<lambda>_. 2" ?p0
      "[[3]]" qs' p' env_ok ?argv ?l ?e ?tr3]
  have su: "startup env_ok (select_port ?argv) = ((?s, ?l, ?e), ?tr3)"
    by (simp add: startup_env_ok)
  have v: "SignalFd_valid ?s" "Listener_valid ?l" "Epoll_valid ?e"
    by (simp_all add: SignalFd_valid_def Listener_valid_def Epoll_valid_def UniqueFd_valid_def)
  have d: "SignalFd_drain_and_handle ?s [(128, 1), (128, 15), (128, 10), (- 1, 0)] [] =
      Some (True, [],
        [SysRead 3, Print [S (''[signal] SIGHUP'' @ nl)],
         SysRead 3, Print [S (''[signal] SIGTERM -> shutdown'' @ nl)],
         SysRead 3, Print [S ''[signal] '', N 10, S nl],
         SysRead 3])"
    using th [THEN conjunct1]
    by (simp add: sizeof_si_def SIGTERM_def SIGHUP_def sig_events_def sig_line_def
        SignalFd_fd_def UniqueFd_get_def)
  have "main ?argv env_ok [[3]] ?qs = Some (0, out p' @ [Print [S (''Server stopped'' @ nl)]]
                    @ teardown (sfd p') (lst p') (ep p') (client p') [])"
    using th [THEN conjunct2, THEN conjunct2, THEN conjunct2, THEN conjunct2, THEN conjunct1]
      su v wl
    by blast
  then have m: "main ?argv env_ok [[3]] ?qs = Some (0,
        [SysSigprocmaskBlock [1, 15], SysSignalfd [1, 15], SysSocket, SysSetsockoptReuseaddr 4,
         SysBind 4 0 12345, SysListen 4 4096, SysFcntlGetfl 4, SysFcntlSetfl 4 2050,
         SysEpollCreate1, SysEpollCtlAdd 5 3, SysEpollCtlAdd 5 4,
         Print [S ''Listening on port '', N 12345, S nl],
         SysEpollWait 5,
         SysRead 3, Print [S (''[signal] SIGHUP'' @ nl)],
         SysRead 3, Print [S (''[signal] SIGTERM -> shutdown'' @ nl)],
         SysRead 3, Print [S ''[signal] '', N 10, S nl],
         SysRead 3,
         Print [S (''Server stopped'' @ nl)],
         SysClose 5, SysClose 4, SysClose 3])"
    unfolding p' by (simp add: startup_env_ok) (simp add: run_eval)
  let ?qb = "\<lparr>read_q = [(128, 1), (- 1, 0)], accept_q = [- 1], recv_q = []\<rparr>"
  let ?pb = "\<lparr>sfd = ?s, lst = ?l, ep = ?e, client = None, stop = True, out = []\<rparr>"
  obtain qb' pb' where fb: "for_events (\<lambda>_. 2) [4, 3] ?qb ?pb = Some (qb', pb')"
    and qb': "qb' = \<lparr>read_q = [], accept_q = [], recv_q = []\<rparr>"
    and pb': "sfd pb' = ?s" "lst pb' = ?l" "ep pb' = ?e" "client pb' = None"
      "out pb' = [SysAccept 4 (- 1), SysRead 3, Print [S (''[signal] SIGHUP'' @ nl)], SysRead 3]"
      "proc.more pb' = ()"
    by (simp add: run_eval)
  have "stop pb'"
    using signal_semantics [OF ne, where g = "\<lambda>_. 2" and fds = "[4, 3]" and qs = ?qb
        and p = ?pb and qs' = qb' and p' = pb',
        THEN conjunct2, THEN conjunct2, THEN conjunct2, THEN conjunct2, THEN conjunct2] fb
    by simp
  with pb' have "pb' = \<lparr>sfd = ?s, lst = ?l, ep = ?e, client = None, stop = True,
         out = [SysAccept 4 (- 1), SysRead 3, Print [S (''[signal] SIGHUP'' @ nl)], SysRead 3]\<rparr>"
    by (cases pb') simp
  with fb qb' have b: "for_events (\<lambda>_. 2) [4, 3] ?qb ?pb =
      Some (\<lparr>read_q = [], accept_q = [], recv_q = []\<rparr>,
        \<lparr>sfd = ?s, lst = ?l, ep = ?e, client = None, stop = True,
         out = [SysAccept 4 (- 1), SysRead 3, Print [S (''[signal] SIGHUP'' @ nl)], SysRead 3]\<rparr>)"
    by simp
  from ne d m b show ?thesis by simp
qed


section \<open>Admission\<close>

text \<open>
  C1. The accept loop, run on any sequence of accepted identifiers up to the first
  negative result. With the slot empty, the first accepted identifier becomes the
  client: a \<open>Client\<close> is built from it, it is registered with the epoll instance and
  the "active" line is written; every later one of the same run is closed at once, with
  the rejection line and no registration. With the slot occupied every accepted
  identifier is rejected in that way and the client stays. The slot holds at most one
  client, so at most one is ever active.
\<close>

theorem admission_policy:
  assumes "\<forall>x\<in>set acc. 0 \<le> x" and "stopv < 0" and "0 \<le> nf"
  shows "accept_loop g l e (nf # acc @ stopv # rest) None tr =
           Some (rest, Some (Client (UniqueFd nf)),
                 tr @ admit_events g (Listener_fd l) (Epoll_fd e) nf
                    @ concat (map (reject_events (Listener_fd l)) acc)
                    @ [SysAccept (Listener_fd l) stopv])
       \<and> accept_loop g l e (acc @ stopv # rest) (Some cl) tr =
           Some (rest, Some cl,
                 tr @ concat (map (reject_events (Listener_fd l)) acc)
                    @ [SysAccept (Listener_fd l) stopv])
       \<and> accept_loop g l e (stopv # rest) None tr =
           Some (rest, None, tr @ [SysAccept (Listener_fd l) stopv])"
  using accept_loop_empty_slot [OF assms(3) assms(1) assms(2)]
    accept_loop_occupied [OF assms(1) assms(2)] assms(2)
  by (simp add: Listener_accept_one_def Listener_fd_def)

theorem admission_policy_witness:
  "accept_loop (\<lambda>_. 2) (Listener (UniqueFd 4)) (Epoll (UniqueFd 5)) [6, 7, 8, - 1] None [] =
     Some ([], Some (Client (UniqueFd 6)),
       [SysAccept 4 6, Print [S (''New connection'' @ nl)],
        SysFcntlGetfl 6, SysFcntlSetfl 6 2050, SysEpollCtlAdd 5 6,
        Print [S (''This connection is now the active client'' @ nl)],
        SysAccept 4 7, Print [S (''New connection'' @ nl)],
        Print [S (''Active client already present, closing new'' @ nl)], SysClose 7,
        SysAccept 4 8, Print [S (''New connection'' @ nl)],
        Print [S (''Active client already present, closing new'' @ nl)], SysClose 8,
        SysAccept 4 (- 1)])
   \<and> accept_loop (\<lambda>_. 2) (Listener (UniqueFd 4)) (Epoll (UniqueFd 5)) [7, 8, - 1]
       (Some (Client (UniqueFd 6))) [] =
     Some ([], Some (Client (UniqueFd 6)),
       [SysAccept 4 7, Print [S (''New connection'' @ nl)],
        Print [S (''Active client already present, closing new'' @ nl)], SysClose 7,
        SysAccept 4 8, Print [S (''New connection'' @ nl)],
        Print [S (''Active client already present, closing new'' @ nl)], SysClose 8,
        SysAccept 4 (- 1)])"
proof -
  have h: "\<forall>x\<in>set [7, 8 :: int]. 0 \<le> x" "(- 1 :: int) < 0" "(0 :: int) \<le> 6" by simp_all
  show ?thesis
    using admission_policy [OF h, of "\<lambda>_. 2" "Listener (UniqueFd 4)" "Epoll (UniqueFd 5)" "[]"
        "[]" "Client (UniqueFd 6)"]
    by (simp add: run_eval)
qed

section \<open>Receiving\<close>

text \<open>
  C2. The receive loop on a client with a valid handle: every positive result writes
  the byte count and the loop goes on; the first result that is not positive ends it.
  Zero, and a negative result with an \<^verbatim>\<open>errno\<close> other than \<^verbatim>\<open>EAGAIN\<close> and
  \<^verbatim>\<open>EWOULDBLOCK\<close>, each write their line, deregister the identifier, close it, once
  each, and leave the slot empty. A negative result with \<^verbatim>\<open>EAGAIN\<close> or
  \<^verbatim>\<open>EWOULDBLOCK\<close> ends the loop with the client in the slot and still registered.
\<close>

theorem recv_classification:
  assumes "\<forall>re\<in>set chunks. 0 < fst re" and "r \<le> 0" and "Client_fd cl \<noteq> - 1"
  shows "recv_loop e cl (chunks @ (r, err) # rest) tr =
     Some (rest,
       (if r = 0 then None else if err = EAGAIN \<or> err = EWOULDBLOCK then Some cl else None),
       tr @ concat (map (recv_events (Client_fd cl)) chunks) @
         (if r = 0 then drop_events (Epoll_fd e) (Client_fd cl) ''Client closed connection''
          else if err = EAGAIN \<or> err = EWOULDBLOCK then [SysRecv (Client_fd cl) 4096]
          else drop_events (Epoll_fd e) (Client_fd cl) ''Client recv error''))"
  using assms by (rule recv_loop_run)

theorem recv_classification_witness:
  "recv_loop (Epoll (UniqueFd 5)) (Client (UniqueFd 6)) [(5, 0), (3, 0), (0, 0)] [] =
     Some ([], None,
       [SysRecv 6 4096, Print [S ''Received '', N 5, S ('' bytes'' @ nl)],
        SysRecv 6 4096, Print [S ''Received '', N 3, S ('' bytes'' @ nl)],
        SysRecv 6 4096, Print [S (''Client closed connection'' @ nl)],
        SysEpollCtlDel 5 6, SysClose 6])
   \<and> recv_loop (Epoll (UniqueFd 5)) (Client (UniqueFd 6)) [(5, 0), (- 1, 11), (7, 0)] [] =
     Some ([(7, 0)], Some (Client (UniqueFd 6)),
       [SysRecv 6 4096, Print [S ''Received '', N 5, S ('' bytes'' @ nl)],
        SysRecv 6 4096])
   \<and> recv_loop (Epoll (UniqueFd 5)) (Client (UniqueFd 6)) [(- 1, 104)] [] =
     Some ([], None,
       [SysRecv 6 4096, Print [S (''Client recv error'' @ nl)],
        SysEpollCtlDel 5 6, SysClose 6])"
proof -
  have c: "Client_fd (Client (UniqueFd 6)) \<noteq> - 1"
    by (simp add: Client_fd_def UniqueFd_get_def)
  have h1: "\<forall>re\<in>set [(5, 0), (3, 0 :: int)]. (0 :: int) < fst re" by simp
  have h2: "\<forall>re\<in>set [(5, 0 :: int)]. (0 :: int) < fst re" by simp
  have h3: "\<forall>re\<in>set ([] :: (int \<times> int) list). (0 :: int) < fst re" by simp
  have z: "(0 :: int) \<le> 0" "(- 1 :: int) \<le> 0" by simp_all
  show ?thesis
    using recv_classification [OF h1 z(1) c, of "Epoll (UniqueFd 5)" 0 "[]" "[]"]
      recv_classification [OF h2 z(2) c, of "Epoll (UniqueFd 5)" 11 "[(7, 0)]" "[]"]
      recv_classification [OF h3 z(2) c, of "Epoll (UniqueFd 5)" 104 "[]" "[]"]
    by (simp add: run_eval)
qed

section \<open>Exit codes\<close>

text \<open>
  C4. \<^verbatim>\<open>main\<close> has two returns. When one of the three objects is invalid after
  construction it returns 1, having waited on nothing: the trace is that of the
  constructors followed by the closes of the destructors. Otherwise it enters the loop
  and returns only when the loop ends; the loop ends only with the stop flag set, which
  happens only after the SIGTERM line was written, and the code is then 0. While the loop
  has not ended there is no result. So a result has code 0 or 1. The signal channel is
  invalid exactly when \<^verbatim>\<open>signalfd\<close> returned -1, the reactor exactly when
  \<^verbatim>\<open>epoll_create1\<close> returned -1, the listener exactly when \<^verbatim>\<open>socket\<close>, \<^verbatim>\<open>bind\<close>
  or \<^verbatim>\<open>listen\<close> failed.
\<close>

theorem exit_codes:
  assumes "startup env (select_port argv) = ((s, l, e), tr3)"
  shows "(\<not> SignalFd_valid s \<or> \<not> Listener_valid l \<or> \<not> Epoll_valid e \<longrightarrow>
            main argv env wq qs =
              Some (1, tr3 @ closes [Epoll_fd e, Listener_fd l, SignalFd_fd s]) \<and>
            \<not> list_ex is_wait (tr3 @ closes [Epoll_fd e, Listener_fd l, SignalFd_fd s]))
       \<and> (SignalFd_valid s \<and> Listener_valid l \<and> Epoll_valid e \<longrightarrow>
            (case while_loop (fcntl_getfl_ret env) wq qs
                    (loop_entry s l e (select_port argv) tr3) of
               None \<Rightarrow> main argv env wq qs = None
             | Some (qs', p') \<Rightarrow>
                 stop p' \<and> term_line \<in> set (out p') \<and>
                 main argv env wq qs =
                   Some (0, out p' @ [Print [S (''Server stopped'' @ nl)]] @
                     closes ((case client p' of None \<Rightarrow> [] | Some cl \<Rightarrow> [Client_fd cl]) @
                       [Epoll_fd (ep p'), Listener_fd (lst p'), SignalFd_fd (sfd p')]))))
       \<and> (main argv env wq qs = Some (code, tr) \<longrightarrow> code = 0 \<or> code = 1)
       \<and> (SignalFd_valid s \<longleftrightarrow> signalfd_ret env \<noteq> - 1)
       \<and> (Listener_valid l \<longleftrightarrow> \<not> listener_failed env)
       \<and> (Epoll_valid e \<longleftrightarrow> epoll_create1_ret env \<noteq> - 1)"
proof -
  let ?p0 = "loop_entry s l e (select_port argv) tr3"
  let ?g = "fcntl_getfl_ret env"
  have tr3: "tr3 = snd (startup env (select_port argv))" using assms by simp
  have a: "main argv env wq qs =
              Some (1, tr3 @ closes [Epoll_fd e, Listener_fd l, SignalFd_fd s]) \<and>
            \<not> list_ex is_wait (tr3 @ closes [Epoll_fd e, Listener_fd l, SignalFd_fd s])"
    if "\<not> SignalFd_valid s \<or> \<not> Listener_valid l \<or> \<not> Epoll_valid e"
    using main_exit1_trace [OF assms that] startup_no_wait [of env "select_port argv"]
      closes_no_wait [of "[Epoll_fd e, Listener_fd l, SignalFd_fd s]"]
    by (simp add: tr3)
  have b: "(case while_loop ?g wq qs ?p0 of
               None \<Rightarrow> main argv env wq qs = None
             | Some (qs', p') \<Rightarrow>
                 stop p' \<and> term_line \<in> set (out p') \<and>
                 main argv env wq qs =
                   Some (0, out p' @ [Print [S (''Server stopped'' @ nl)]] @
                     closes ((case client p' of None \<Rightarrow> [] | Some cl \<Rightarrow> [Client_fd cl]) @
                       [Epoll_fd (ep p'), Listener_fd (lst p'), SignalFd_fd (sfd p')])))"
    if v: "SignalFd_valid s" "Listener_valid l" "Epoll_valid e"
  proof (cases "while_loop ?g wq qs ?p0")
    case None
    with main_waiting [OF assms v] show ?thesis by simp
  next
    case (Some r)
    obtain qs' p' where r: "r = (qs', p')" by (cases r)
    have ns: "\<not> stop ?p0" by (simp add: loop_entry_def Let_def)
    from Some r while_loop_stop [of ?g wq qs ?p0 qs' p']
      while_loop_trace [of ?g wq qs ?p0 qs' p'] ns main_exit0_trace [OF assms v, of wq qs qs' p']
    show ?thesis by simp
  qed
  have c: "code = 0 \<or> code = 1" if m: "main argv env wq qs = Some (code, tr)"
  proof (cases "SignalFd_valid s \<and> Listener_valid l \<and> Epoll_valid e")
    case True
    with b have "case while_loop ?g wq qs ?p0 of
               None \<Rightarrow> main argv env wq qs = None
             | Some (qs', p') \<Rightarrow>
                 stop p' \<and> term_line \<in> set (out p') \<and>
                 main argv env wq qs =
                   Some (0, out p' @ [Print [S (''Server stopped'' @ nl)]] @
                     closes ((case client p' of None \<Rightarrow> [] | Some cl \<Rightarrow> [Client_fd cl]) @
                       [Epoll_fd (ep p'), Listener_fd (lst p'), SignalFd_fd (sfd p')]))"
      by blast
    with m show ?thesis by (auto split: option.splits)
  next
    case False
    then have "\<not> SignalFd_valid s \<or> \<not> Listener_valid l \<or> \<not> Epoll_valid e" by blast
    from a [OF this] m show ?thesis by simp
  qed
  from a b c startup_valid [OF assms] show ?thesis by blast
qed


theorem exit_codes_witness:
  "main [''server''] env_bind_fail [[3]] qs_term =
     Some (1,
       [SysSigprocmaskBlock [1, 15], SysSignalfd [1, 15], SysSocket, SysSetsockoptReuseaddr 4,
        SysBind 4 0 12345, SysClose 4, SysEpollCreate1, SysClose 5, SysClose 3])
   \<and> main [''server''] env_ok [[], [3]] qs_term =
     Some (0,
       [SysSigprocmaskBlock [1, 15], SysSignalfd [1, 15], SysSocket, SysSetsockoptReuseaddr 4,
        SysBind 4 0 12345, SysListen 4 4096, SysFcntlGetfl 4, SysFcntlSetfl 4 2050,
        SysEpollCreate1, SysEpollCtlAdd 5 3, SysEpollCtlAdd 5 4,
        Print [S ''Listening on port '', N 12345, S nl],
        SysEpollWait 5, SysEpollWait 5,
        SysRead 3, Print [S (''[signal] SIGTERM -> shutdown'' @ nl)], SysRead 3,
        Print [S (''Server stopped'' @ nl)],
        SysClose 5, SysClose 4, SysClose 3])
   \<and> main [''server''] env_ok [[], [4]] qs_term = None"
proof -
  let ?s = "SignalFd [1, 15] (UniqueFd 3)"
  let ?e = "Epoll (UniqueFd 5)"
  let ?argv = "[''server'']"
  have port: "select_port ?argv = 12345" by (simp add: select_port_def)
  have su1: "startup env_bind_fail (select_port ?argv) =
    ((?s, Listener (UniqueFd (- 1)), ?e), snd (startup env_bind_fail (select_port ?argv)))"
    by (simp add: startup_env_bind_fail)
  have nv: "\<not> SignalFd_valid ?s \<or> \<not> Listener_valid (Listener (UniqueFd (- 1))) \<or> \<not> Epoll_valid ?e"
    by (simp add: Listener_valid_def UniqueFd_valid_def)
  have m1: "main ?argv env_bind_fail [[3]] qs_term =
     Some (1,
       [SysSigprocmaskBlock [1, 15], SysSignalfd [1, 15], SysSocket, SysSetsockoptReuseaddr 4,
        SysBind 4 0 12345, SysClose 4, SysEpollCreate1, SysClose 5, SysClose 3])"
    using exit_codes [OF su1, of "[[3]]" qs_term, THEN conjunct1, THEN mp, OF nv]
    by (simp add: port startup_env_bind_fail closes_def Epoll_fd_def Listener_fd_def
        SignalFd_fd_def UniqueFd_get_def)
  let ?l = "Listener (UniqueFd 4)"
  let ?tr3 = "snd (startup env_ok (select_port ?argv))"
  let ?p0 = "loop_entry ?s ?l ?e (select_port ?argv) ?tr3"
  have su2: "startup env_ok (select_port ?argv) = ((?s, ?l, ?e), ?tr3)"
    by (simp add: startup_env_ok)
  have v: "SignalFd_valid ?s \<and> Listener_valid ?l \<and> Epoll_valid ?e"
    by (simp add: SignalFd_valid_def Listener_valid_def Epoll_valid_def UniqueFd_valid_def)
  have w2: "while_loop (fcntl_getfl_ret env_ok) [[], [3]] qs_term ?p0 =
    Some (\<lparr>read_q = [], accept_q = [], recv_q = []\<rparr>,
      \<lparr>sfd = ?s, lst = ?l, ep = ?e, client = None, stop = True,
       out = [SysSigprocmaskBlock [1, 15], SysSignalfd [1, 15], SysSocket, SysSetsockoptReuseaddr 4,
        SysBind 4 0 12345, SysListen 4 4096, SysFcntlGetfl 4, SysFcntlSetfl 4 2050,
        SysEpollCreate1, SysEpollCtlAdd 5 3, SysEpollCtlAdd 5 4,
        Print [S ''Listening on port '', N 12345, S nl],
        SysEpollWait 5, SysEpollWait 5,
        SysRead 3, Print [S (''[signal] SIGTERM -> shutdown'' @ nl)], SysRead 3]\<rparr>)"
    by (simp add: port startup_env_ok) (simp add: run_eval env_ok_def qs_term_def)
  have m2: "main ?argv env_ok [[], [3]] qs_term =
     Some (0,
       [SysSigprocmaskBlock [1, 15], SysSignalfd [1, 15], SysSocket, SysSetsockoptReuseaddr 4,
        SysBind 4 0 12345, SysListen 4 4096, SysFcntlGetfl 4, SysFcntlSetfl 4 2050,
        SysEpollCreate1, SysEpollCtlAdd 5 3, SysEpollCtlAdd 5 4,
        Print [S ''Listening on port '', N 12345, S nl],
        SysEpollWait 5, SysEpollWait 5,
        SysRead 3, Print [S (''[signal] SIGTERM -> shutdown'' @ nl)], SysRead 3,
        Print [S (''Server stopped'' @ nl)],
        SysClose 5, SysClose 4, SysClose 3])"
    using exit_codes [OF su2, of "[[], [3]]" qs_term, THEN conjunct2, THEN conjunct1,
        THEN mp, OF v, unfolded w2]
    by (simp add: closes_def Epoll_fd_def Listener_fd_def SignalFd_fd_def UniqueFd_get_def)
  have w3: "while_loop (fcntl_getfl_ret env_ok) [[], [4]] qs_term ?p0 = None"
    by (simp add: port startup_env_ok) (simp add: run_eval env_ok_def qs_term_def)
  have m3: "main ?argv env_ok [[], [4]] qs_term = None"
    using exit_codes [OF su2, of "[[], [4]]" qs_term, THEN conjunct2, THEN conjunct1,
        THEN mp, OF v, unfolded w3]
    by simp
  from m1 m2 m3 show ?thesis by simp
qed

section \<open>Construction of the listener\<close>

text \<open>
  C7, as the claim states it, fails for two of the five steps: the results of
  \<^verbatim>\<open>setsockopt\<close> and of the two \<^verbatim>\<open>fcntl\<close> calls are never looked at. With both
  failing, the \<open>Listener\<close> is valid, the program enters the loop and ends with code 0.
\<close>

theorem listener_option_failure_counterexample:
  "setsockopt_ret env_opt_fail < 0 \<and> fcntl_getfl_ret env_opt_fail 4 < 0
   \<and> Listener_ctor env_opt_fail 12345 [] =
       (Listener (UniqueFd 4),
        [SysSocket, SysSetsockoptReuseaddr 4, SysBind 4 0 12345, SysListen 4 4096,
         SysFcntlGetfl 4, SysFcntlSetfl 4 (- 1)])
   \<and> Listener_valid (fst (Listener_ctor env_opt_fail 12345 []))
   \<and> map_option fst (main [''server''] env_opt_fail [[3]] qs_term) = Some 0"
  by (simp add: run_eval env_ok_def env_opt_fail_def qs_term_def)

text \<open>
  C7, amended. The constructor calls, in this order, \<^verbatim>\<open>socket\<close>, \<^verbatim>\<open>setsockopt\<close> for
  address reuse, \<^verbatim>\<open>bind\<close> to the port on the wildcard address, \<^verbatim>\<open>listen\<close> with
  \<^verbatim>\<open>SOMAXCONN\<close>, and the two \<^verbatim>\<open>fcntl\<close> calls that set \<^verbatim>\<open>O_NONBLOCK\<close>. When
  \<^verbatim>\<open>socket\<close>, \<^verbatim>\<open>bind\<close> or \<^verbatim>\<open>listen\<close> fails, the construction stops there, the
  socket, if there is one, is closed, the handle stays unset and the \<open>Listener\<close> is
  invalid; \<^verbatim>\<open>main\<close> then returns 1 without a single wait, after closing the epoll and
  signal descriptors it holds. Failures of \<^verbatim>\<open>setsockopt\<close> and \<^verbatim>\<open>fcntl\<close> are ignored.
\<close>

theorem listener_construction:
  "(\<not> listener_failed env \<longrightarrow>
      Listener_ctor env port tr =
        (Listener (UniqueFd (socket_ret env)),
         tr @ [SysSocket, SysSetsockoptReuseaddr (socket_ret env),
               SysBind (socket_ret env) INADDR_ANY port,
               SysListen (socket_ret env) SOMAXCONN,
               SysFcntlGetfl (socket_ret env),
               SysFcntlSetfl (socket_ret env)
                 (fcntl_getfl_ret env (socket_ret env) OR O_NONBLOCK)]) \<and>
      Listener_valid (fst (Listener_ctor env port tr)))
   \<and> (listener_failed env \<longrightarrow>
      Listener_ctor env port tr =
        (Listener (UniqueFd (- 1)),
         tr @ (if socket_ret env < 0 then [SysSocket]
               else if bind_ret env < 0 then
                 [SysSocket, SysSetsockoptReuseaddr (socket_ret env),
                  SysBind (socket_ret env) INADDR_ANY port, SysClose (socket_ret env)]
               else
                 [SysSocket, SysSetsockoptReuseaddr (socket_ret env),
                  SysBind (socket_ret env) INADDR_ANY port,
                  SysListen (socket_ret env) SOMAXCONN, SysClose (socket_ret env)])) \<and>
      \<not> Listener_valid (fst (Listener_ctor env port tr)) \<and>
      main argv env wq qs =
        Some (1, [SysSigprocmaskBlock [SIGHUP, SIGTERM], SysSignalfd [SIGHUP, SIGTERM]]
                 @ snd (Listener_ctor env (select_port argv) []) @ [SysEpollCreate1]
                 @ closes [epoll_create1_ret env, signalfd_ret env]) \<and>
      \<not> list_ex is_wait
          ([SysSigprocmaskBlock [SIGHUP, SIGTERM], SysSignalfd [SIGHUP, SIGTERM]]
            @ snd (Listener_ctor env (select_port argv) []) @ [SysEpollCreate1]
            @ closes [epoll_create1_ret env, signalfd_ret env]))"
proof -
  have ok: "Listener_ctor env port tr =
        (Listener (UniqueFd (socket_ret env)),
         tr @ [SysSocket, SysSetsockoptReuseaddr (socket_ret env),
               SysBind (socket_ret env) INADDR_ANY port,
               SysListen (socket_ret env) SOMAXCONN,
               SysFcntlGetfl (socket_ret env),
               SysFcntlSetfl (socket_ret env)
                 (fcntl_getfl_ret env (socket_ret env) OR O_NONBLOCK)])"
    if "\<not> listener_failed env"
    using that
    by (simp add: listener_failed_def Listener_ctor_def Let_def set_nonblock_def
        UniqueFd_reset_def UniqueFd_default_def)
  have bad: "Listener_ctor env port tr =
        (Listener (UniqueFd (- 1)),
         tr @ (if socket_ret env < 0 then [SysSocket]
               else if bind_ret env < 0 then
                 [SysSocket, SysSetsockoptReuseaddr (socket_ret env),
                  SysBind (socket_ret env) INADDR_ANY port, SysClose (socket_ret env)]
               else
                 [SysSocket, SysSetsockoptReuseaddr (socket_ret env),
                  SysBind (socket_ret env) INADDR_ANY port,
                  SysListen (socket_ret env) SOMAXCONN, SysClose (socket_ret env)]))"
    if "listener_failed env" for port tr
    using that
    by (auto simp: listener_failed_def Listener_ctor_def Let_def UniqueFd_default_def)
  have m: "main argv env wq qs =
        Some (1, [SysSigprocmaskBlock [SIGHUP, SIGTERM], SysSignalfd [SIGHUP, SIGTERM]]
                 @ snd (Listener_ctor env (select_port argv) []) @ [SysEpollCreate1]
                 @ closes [epoll_create1_ret env, signalfd_ret env]) \<and>
      \<not> list_ex is_wait
          ([SysSigprocmaskBlock [SIGHUP, SIGTERM], SysSignalfd [SIGHUP, SIGTERM]]
            @ snd (Listener_ctor env (select_port argv) []) @ [SysEpollCreate1]
            @ closes [epoll_create1_ret env, signalfd_ret env])"
    if f: "listener_failed env"
  proof -
    let ?port = "select_port argv"
    obtain s l e tr3 where su: "startup env ?port = ((s, l, e), tr3)"
      by (metis prod.exhaust)
    from su startup_objects [of env ?port] have
      o: "s = SignalFd [SIGHUP, SIGTERM] (UniqueFd (signalfd_ret env))"
         "l = fst (Listener_ctor env ?port [])"
         "e = Epoll (UniqueFd (epoll_create1_ret env))"
      by simp_all
    have l: "l = Listener (UniqueFd (- 1))"
      using bad [OF f, of ?port "[]"] o(2) by simp
    have nv: "\<not> SignalFd_valid s \<or> \<not> Listener_valid l \<or> \<not> Epoll_valid e"
      using startup_valid(2) [OF su] f by simp
    have tr3: "tr3 = [SysSigprocmaskBlock [SIGHUP, SIGTERM], SysSignalfd [SIGHUP, SIGTERM]]
                 @ snd (Listener_ctor env ?port []) @ [SysEpollCreate1]"
      using su startup_trace [of env ?port] by simp
    have cl: "closes [Epoll_fd e, Listener_fd l, SignalFd_fd s] =
              closes [epoll_create1_ret env, signalfd_ret env]"
      by (simp add: o(1,3) l closes_def Epoll_fd_def Listener_fd_def SignalFd_fd_def
          UniqueFd_get_def)
    from main_exit1_no_wait [OF su nv, of wq qs] show ?thesis
      unfolding cl tr3 by simp
  qed
  show ?thesis
  proof (cases "listener_failed env")
    case True
    from bad [OF True, of port tr] m [OF True] Listener_ctor_valid [of env port tr] True
    show ?thesis by blast
  next
    case False
    from ok [OF False] Listener_ctor_valid [of env port tr] False
    show ?thesis by blast
  qed
qed


theorem listener_construction_witness:
  "Listener_ctor env_ok 8080 [] =
     (Listener (UniqueFd 4),
      [SysSocket, SysSetsockoptReuseaddr 4, SysBind 4 0 8080, SysListen 4 4096,
       SysFcntlGetfl 4, SysFcntlSetfl 4 2050])
   \<and> Listener_ctor env_bind_fail 8080 [] =
     (Listener (UniqueFd (- 1)),
      [SysSocket, SysSetsockoptReuseaddr 4, SysBind 4 0 8080, SysClose 4])
   \<and> main [''server'', ''8080''] env_bind_fail [[3]] qs_term =
     Some (1,
       [SysSigprocmaskBlock [1, 15], SysSignalfd [1, 15], SysSocket, SysSetsockoptReuseaddr 4,
        SysBind 4 0 8080, SysClose 4, SysEpollCreate1, SysClose 5, SysClose 3])"
proof -
  have ok: "\<not> listener_failed env_ok"
    by (simp add: listener_failed_def env_ok_def)
  have bad: "listener_failed env_bind_fail"
    by (simp add: listener_failed_def env_ok_def env_bind_fail_def)
  have port: "select_port [''server'', ''8080''] = 8080"
    by (simp add: port_eval)
  have a: "Listener_ctor env_ok 8080 [] =
     (Listener (UniqueFd 4),
      [SysSocket, SysSetsockoptReuseaddr 4, SysBind 4 0 8080, SysListen 4 4096,
       SysFcntlGetfl 4, SysFcntlSetfl 4 2050])"
    using listener_construction [of env_ok 8080 "[]", THEN conjunct1, THEN mp, OF ok]
    by (simp add: env_ok_def INADDR_ANY_def SOMAXCONN_def O_NONBLOCK_def)
  note b = listener_construction [of env_bind_fail 8080 "[]" "[''server'', ''8080'']" "[[3]]"
      qs_term, THEN conjunct2, THEN mp, OF bad]
  have b1: "Listener_ctor env_bind_fail 8080 [] =
     (Listener (UniqueFd (- 1)),
      [SysSocket, SysSetsockoptReuseaddr 4, SysBind 4 0 8080, SysClose 4])"
    using b [THEN conjunct1]
    by (simp add: env_ok_def env_bind_fail_def INADDR_ANY_def)
  have b2: "main [''server'', ''8080''] env_bind_fail [[3]] qs_term =
     Some (1,
       [SysSigprocmaskBlock [1, 15], SysSignalfd [1, 15], SysSocket, SysSetsockoptReuseaddr 4,
        SysBind 4 0 8080, SysClose 4, SysEpollCreate1, SysClose 5, SysClose 3])"
    using b [THEN conjunct2, THEN conjunct2, THEN conjunct1]
    unfolding port b1
    by (simp add: closes_def env_ok_def env_bind_fail_def SIGHUP_def SIGTERM_def)
  from a b1 b2 show ?thesis by simp
qed

section \<open>Handles\<close>

text \<open>
  C8. The class deletes copy construction and copy assignment, so the model has no
  operation that copies a handle; what it has is wrapping, \<^verbatim>\<open>reset\<close>, destruction and
  the two moves. Move construction and move assignment leave -1 in the source and the
  identifier in the target; move assignment first closes what the target owned, and
  assigning a handle to itself changes nothing. \<^verbatim>\<open>reset()\<close> on an empty handle does
  nothing, and a second \<^verbatim>\<open>reset()\<close> after a first does nothing more. Destroying a
  handle that owns an identifier closes it, once; destroying it again, or destroying an
  empty handle, closes nothing. No identifier has two owners: the invariant
  \<open>unique_owners\<close> is kept by both moves and by destruction, and by wrapping an
  identifier that no live handle owns, which is what a newly acquired identifier is.
\<close>

theorem handle_ownership:
  "(a < length h \<longrightarrow>
      length (store_move_ctor a h) = Suc (length h) \<and>
      store_move_ctor a h ! a = UniqueFd (- 1) \<and>
      store_move_ctor a h ! length h = UniqueFd (ufd (h ! a)) \<and>
      (\<forall>b<length h. b \<noteq> a \<longrightarrow> store_move_ctor a h ! b = h ! b) \<and>
      (unique_owners h \<longrightarrow> unique_owners (store_move_ctor a h)))
   \<and> (this < length h \<and> a < length h \<and> this \<noteq> a \<longrightarrow>
      store_move_assign this a (h, tr) =
        (h[this := UniqueFd (ufd (h ! a)), a := UniqueFd (- 1)],
         tr @ closes [ufd (h ! this)]) \<and>
      (unique_owners h \<longrightarrow> unique_owners (fst (store_move_assign this a (h, tr)))))
   \<and> store_move_assign a a (h, tr) = (h, tr)
   \<and> UniqueFd_reset (- 1) (UniqueFd (- 1)) tr = (UniqueFd (- 1), tr)
   \<and> UniqueFd_reset (- 1) (fst (UniqueFd_reset (- 1) u tr)) (snd (UniqueFd_reset (- 1) u tr))
       = UniqueFd_reset (- 1) u tr
   \<and> (ufd u \<noteq> - 1 \<longrightarrow> UniqueFd_dtor u tr = tr @ [SysClose (ufd u)])
   \<and> UniqueFd_dtor (UniqueFd (- 1)) tr = tr
   \<and> store_dtor a (h, tr) = (h[a := UniqueFd (- 1)], tr @ closes [ufd (h ! a)])
   \<and> (a < length h \<longrightarrow> store_dtor a (store_dtor a (h, tr)) = store_dtor a (h, tr))
   \<and> (unique_owners h \<longrightarrow> unique_owners (fst (store_dtor a (h, tr))))
   \<and> (unique_owners h \<and> fd \<notin> set (owned h) \<longrightarrow> unique_owners (store_wrap fd h))"
proof -
  have mc: "length (store_move_ctor a h) = Suc (length h) \<and>
      store_move_ctor a h ! a = UniqueFd (- 1) \<and>
      store_move_ctor a h ! length h = UniqueFd (ufd (h ! a)) \<and>
      (\<forall>b<length h. b \<noteq> a \<longrightarrow> store_move_ctor a h ! b = h ! b)"
    if "a < length h"
    using that by (simp add: store_move_ctor_def nth_append)
  have ma: "unique_owners (fst (store_move_assign this a (h, tr)))"
    if "this < length h" "a < length h" "this \<noteq> a" "unique_owners h"
    using unique_move_assign [OF that] store_move_assign_eq [OF that(1-3), of tr] by simp
  have r2: "UniqueFd_reset (- 1) (fst (UniqueFd_reset (- 1) u tr)) (snd (UniqueFd_reset (- 1) u tr))
       = UniqueFd_reset (- 1) u tr"
    by (simp add: UniqueFd_reset_def)
  have d2: "store_dtor a (store_dtor a (h, tr)) = store_dtor a (h, tr)" if "a < length h"
    using that by (simp add: store_dtor_eq closes_def)
  have du: "unique_owners (fst (store_dtor a (h, tr)))" if "unique_owners h"
    using unique_dtor [OF that, of a] by (simp add: store_dtor_eq)
  have dt: "UniqueFd_dtor u tr = tr @ [SysClose (ufd u)]" if "ufd u \<noteq> - 1"
    using that by (simp add: UniqueFd_dtor_def UniqueFd_reset_def)
  have de: "UniqueFd_dtor (UniqueFd (- 1)) tr = tr"
    by (simp add: UniqueFd_dtor_def UniqueFd_reset_def)
  have re: "UniqueFd_reset (- 1) (UniqueFd (- 1)) tr = (UniqueFd (- 1), tr)"
    by (simp add: UniqueFd_reset_def)
  have sa: "store_move_assign a a (h, tr) = (h, tr)"
    by (simp add: store_move_assign_def)
  show ?thesis
    using mc unique_move_ctor [of a h] store_move_assign_eq [of this h a tr] ma sa re r2 dt de
      store_dtor_eq [of a h tr] d2 du unique_wrap [of h fd]
    by blast
qed

theorem handle_ownership_witness:
  "store_move_ctor 0 [UniqueFd 3, UniqueFd (- 1), UniqueFd 7] =
     [UniqueFd (- 1), UniqueFd (- 1), UniqueFd 7, UniqueFd 3]
   \<and> unique_owners [UniqueFd 3, UniqueFd (- 1), UniqueFd 7]
   \<and> unique_owners (store_move_ctor 0 [UniqueFd 3, UniqueFd (- 1), UniqueFd 7])
   \<and> store_move_assign 0 2 ([UniqueFd 3, UniqueFd (- 1), UniqueFd 7], []) =
       ([UniqueFd 7, UniqueFd (- 1), UniqueFd (- 1)], [SysClose 3])
   \<and> store_move_assign 1 2 ([UniqueFd 3, UniqueFd (- 1), UniqueFd 7], []) =
       ([UniqueFd 3, UniqueFd 7, UniqueFd (- 1)], [])
   \<and> UniqueFd_dtor (UniqueFd 3) [] = [SysClose 3]
   \<and> store_dtor 0 (store_dtor 0 ([UniqueFd 3, UniqueFd (- 1), UniqueFd 7], [])) =
       ([UniqueFd (- 1), UniqueFd (- 1), UniqueFd 7], [SysClose 3])
   \<and> unique_owners (store_wrap 9 [UniqueFd 3, UniqueFd (- 1), UniqueFd 7])"
proof -
  let ?h = "[UniqueFd 3, UniqueFd (- 1), UniqueFd 7]"
  have u: "unique_owners ?h" by (simp add: unique_owners_def owned_def)
  have l: "(0::nat) < length ?h" by simp
  note t0 = handle_ownership [of 0 ?h 0 "[]" "UniqueFd 3" 9]
  have c1: "store_move_ctor 0 ?h = [UniqueFd (- 1), UniqueFd (- 1), UniqueFd 7, UniqueFd 3]"
    by (simp add: store_move_ctor_def)
  have c2: "unique_owners (store_move_ctor 0 ?h)"
    using t0 [THEN conjunct1, THEN mp, OF l] u by blast
  have a1: "store_move_assign 0 2 (?h, []) =
       ([UniqueFd 7, UniqueFd (- 1), UniqueFd (- 1)], [SysClose 3])"
    using handle_ownership [of 2 ?h 0 "[]" "UniqueFd 3" 9, THEN conjunct2, THEN conjunct1]
    by (simp add: closes_def)
  have a2: "store_move_assign 1 2 (?h, []) = ([UniqueFd 3, UniqueFd 7, UniqueFd (- 1)], [])"
    using handle_ownership [of 2 ?h 1 "[]" "UniqueFd 3" 9, THEN conjunct2, THEN conjunct1]
    by (simp add: closes_def)
  have d1: "UniqueFd_dtor (UniqueFd 3) [] = [SysClose 3]"
    using t0 [THEN conjunct2, THEN conjunct2, THEN conjunct2, THEN conjunct2, THEN conjunct2,
        THEN conjunct1]
    by simp
  have d2: "store_dtor 0 (store_dtor 0 (?h, [])) =
       ([UniqueFd (- 1), UniqueFd (- 1), UniqueFd 7], [SysClose 3])"
    using t0 [THEN conjunct2, THEN conjunct2, THEN conjunct2, THEN conjunct2, THEN conjunct2,
        THEN conjunct2, THEN conjunct2]
    by (simp add: store_dtor_eq closes_def)
  have w: "unique_owners (store_wrap 9 ?h)"
    using t0 [THEN conjunct2, THEN conjunct2, THEN conjunct2, THEN conjunct2, THEN conjunct2,
        THEN conjunct2, THEN conjunct2, THEN conjunct2, THEN conjunct2, THEN conjunct2] u
    by (simp add: owned_def)
  from c1 u c2 a1 a2 d1 d2 w show ?thesis by simp
qed

section \<open>Reuse of the slot\<close>

text \<open>
  C6. The dispatch loop, in a state with a client in the slot, with answers in which
  the receive loop ends on zero or on a hard error and the next \<^verbatim>\<open>accept\<close> returns
  an identifier. When one batch reports the client and then the listener, the client is
  removed and the accepted identifier is admitted in that batch: client built,
  registered, "active" line, the slot holds it. The same happens across waits: a batch
  with the client, any number of batches in which neither the signal channel nor the
  listener is ready, then a batch with the listener. And through every batch in which
  the listener is not ready an empty slot stays empty.
\<close>

theorem slot_reuse:
  assumes c: "client p = Some cl" and v: "Client_fd cl \<noteq> - 1"
    and ns: "Client_fd cl \<noteq> SignalFd_fd (sfd p)" and nl: "Client_fd cl \<noteq> Listener_fd (lst p)"
    and ls: "Listener_fd (lst p) \<noteq> SignalFd_fd (sfd p)"
    and rq: "recv_q qs = chunks @ (r, err) # rq" and pos: "\<forall>re\<in>set chunks. 0 < fst re"
    and cl: "r = 0 \<or> (r < 0 \<and> err \<noteq> EAGAIN \<and> err \<noteq> EWOULDBLOCK)"
    and aq: "accept_q qs = nf # acc @ stopv # aq"
    and nf: "0 \<le> nf" and acc: "\<forall>x\<in>set acc. 0 \<le> x" and st: "stopv < 0"
  shows "for_events g (Client_fd cl # Listener_fd (lst p) # fds) qs p =
           for_events g fds (qs\<lparr>recv_q := rq, accept_q := aq\<rparr>)
             (p\<lparr>client := Some (Client (UniqueFd nf)),
                out := out p
                  @ removal_events (Epoll_fd (ep p)) (Client_fd cl) chunks r
                  @ admission_events g (Listener_fd (lst p)) (Epoll_fd (ep p)) nf acc stopv\<rparr>)
       \<and> (\<not> stop p \<and>
            (\<forall>b\<in>set mids. SignalFd_fd (sfd p) \<notin> set b \<and> Listener_fd (lst p) \<notin> set b) \<longrightarrow>
            while_loop g ([Client_fd cl] # mids @ [Listener_fd (lst p)] # wq) qs p =
              while_loop g wq (qs\<lparr>recv_q := rq, accept_q := aq\<rparr>)
                (p\<lparr>client := Some (Client (UniqueFd nf)),
                   out := out p
                     @ [SysEpollWait (Epoll_fd (ep p))]
                     @ removal_events (Epoll_fd (ep p)) (Client_fd cl) chunks r
                     @ replicate (length mids) (SysEpollWait (Epoll_fd (ep p)))
                     @ [SysEpollWait (Epoll_fd (ep p))]
                     @ admission_events g (Listener_fd (lst p)) (Epoll_fd (ep p)) nf acc stopv\<rparr>))
       \<and> (for_events g fds1 qs1 p1 = Some (qs', p') \<and> client p1 = None \<and>
            Listener_fd (lst p1) \<notin> set fds1 \<longrightarrow> client p' = None)"
proof -
  let ?cfd = "Client_fd cl" and ?lf = "Listener_fd (lst p)" and ?ef = "Epoll_fd (ep p)"
  let ?R = "removal_events ?ef ?cfd chunks r"
  let ?A = "admission_events g ?lf ?ef nf acc stopv"
  let ?W = "SysEpollWait ?ef"
  have same: "for_events g (?cfd # ?lf # fds) qs p =
           for_events g fds (qs\<lparr>recv_q := rq, accept_q := aq\<rparr>)
             (p\<lparr>client := Some (Client (UniqueFd nf)), out := out p @ ?R @ ?A\<rparr>)"
  proof -
    let ?p1 = "p\<lparr>client := None, out := out p @ ?R\<rparr>"
    let ?qs1 = "qs\<lparr>recv_q := rq\<rparr>"
    have "for_events g (?cfd # ?lf # fds) qs p = for_events g (?lf # fds) ?qs1 ?p1"
      by (rule for_events_client_removed [OF c v ns nl rq pos cl])
    also have "\<dots> = for_events g fds (qs\<lparr>recv_q := rq, accept_q := aq\<rparr>)
             (p\<lparr>client := Some (Client (UniqueFd nf)), out := out p @ ?R @ ?A\<rparr>)"
    proof -
      have "for_events g (Listener_fd (lst ?p1) # fds) ?qs1 ?p1 =
          for_events g fds (?qs1\<lparr>accept_q := aq\<rparr>)
             (?p1\<lparr>client := Some (Client (UniqueFd nf)),
                 out := out ?p1 @ admission_events g (Listener_fd (lst ?p1)) (Epoll_fd (ep ?p1))
                                   nf acc stopv\<rparr>)"
        using ls aq by (intro for_events_listener_admits [OF _ _ _ nf acc st]) simp_all
      then show ?thesis by simp
    qed
    finally show ?thesis .
  qed
  have across: "while_loop g ([?cfd] # mids @ [?lf] # wq) qs p =
              while_loop g wq (qs\<lparr>recv_q := rq, accept_q := aq\<rparr>)
                (p\<lparr>client := Some (Client (UniqueFd nf)),
                   out := out p @ [?W] @ ?R @ replicate (length mids) ?W @ [?W] @ ?A\<rparr>)"
    if s: "\<not> stop p"
      and idle: "\<forall>b\<in>set mids. SignalFd_fd (sfd p) \<notin> set b \<and> ?lf \<notin> set b"
  proof -
    let ?p0 = "p\<lparr>out := Epoll_wait (ep p) (out p)\<rparr>"
    let ?qs1 = "qs\<lparr>recv_q := rq\<rparr>"
    let ?p1 = "p\<lparr>client := None, out := out p @ [?W] @ ?R\<rparr>"
    have "for_events g [?cfd] qs ?p0 =
            for_events g [] ?qs1
              (?p0\<lparr>client := None,
                   out := out ?p0 @ removal_events (Epoll_fd (ep ?p0)) ?cfd chunks r\<rparr>)"
      using c ns nl by (intro for_events_client_removed [OF _ v _ _ rq pos cl]) simp_all
    then have f1: "for_events g [?cfd] qs ?p0 = Some (?qs1, ?p1)"
      by (simp add: Epoll_wait_def Epoll_fd_def)
    let ?p2 = "?p1\<lparr>out := out ?p1 @ replicate (length mids) (SysEpollWait (Epoll_fd (ep ?p1)))\<rparr>"
    have w2: "while_loop g (mids @ [?lf] # wq) ?qs1 ?p1 = while_loop g ([?lf] # wq) ?qs1 ?p2"
      using s idle by (intro while_loop_idle) simp_all
    let ?p3 = "?p2\<lparr>out := Epoll_wait (ep ?p2) (out ?p2)\<rparr>"
    have "for_events g [Listener_fd (lst ?p3)] ?qs1 ?p3 =
            for_events g [] (?qs1\<lparr>accept_q := aq\<rparr>)
              (?p3\<lparr>client := Some (Client (UniqueFd nf)),
                   out := out ?p3 @ admission_events g (Listener_fd (lst ?p3)) (Epoll_fd (ep ?p3))
                                     nf acc stopv\<rparr>)"
      using ls aq by (intro for_events_listener_admits [OF _ _ _ nf acc st]) simp_all
    then have f3: "for_events g [?lf] ?qs1 ?p3 =
        Some (qs\<lparr>recv_q := rq, accept_q := aq\<rparr>,
              p\<lparr>client := Some (Client (UniqueFd nf)),
                out := out p @ [?W] @ ?R @ replicate (length mids) ?W @ [?W] @ ?A\<rparr>)"
      by (simp add: Epoll_wait_def Epoll_fd_def)
    have "while_loop g ([?cfd] # mids @ [?lf] # wq) qs p =
            while_loop g (mids @ [?lf] # wq) ?qs1 ?p1"
      using s f1 by simp
    also note w2
    also have "while_loop g ([?lf] # wq) ?qs1 ?p2 =
        while_loop g wq (qs\<lparr>recv_q := rq, accept_q := aq\<rparr>)
          (p\<lparr>client := Some (Client (UniqueFd nf)),
             out := out p @ [?W] @ ?R @ replicate (length mids) ?W @ [?W] @ ?A\<rparr>)"
      using s f3 by simp
    finally show ?thesis .
  qed
  from same across for_events_slot_stays_empty [of g fds1 qs1 p1 qs' p']
  show ?thesis by blast
qed


theorem slot_reuse_witness:
  "for_events (\<lambda>_. 2) [6, 4] qs_reuse p_active =
     Some (\<lparr>read_q = [(128, 15), (- 1, 0)], accept_q = [], recv_q = []\<rparr>,
       \<lparr>sfd = SignalFd [1, 15] (UniqueFd 3), lst = Listener (UniqueFd 4),
        ep = Epoll (UniqueFd 5), client = Some (Client (UniqueFd 6)), stop = False,
        out =
          [SysRecv 6 4096, Print [S ''Received '', N 5, S ('' bytes'' @ nl)],
           SysRecv 6 4096, Print [S (''Client closed connection'' @ nl)],
           SysEpollCtlDel 5 6, SysClose 6,
           SysAccept 4 6, Print [S (''New connection'' @ nl)],
           SysFcntlGetfl 6, SysFcntlSetfl 6 2050, SysEpollCtlAdd 5 6,
           Print [S (''This connection is now the active client'' @ nl)],
           SysAccept 4 7, Print [S (''New connection'' @ nl)],
           Print [S (''Active client already present, closing new'' @ nl)], SysClose 7,
           SysAccept 4 (- 1)]\<rparr>)
   \<and> while_loop (\<lambda>_. 2) [[6], [], [4], [3]] qs_reuse p_active =
     Some (\<lparr>read_q = [], accept_q = [], recv_q = []\<rparr>,
       \<lparr>sfd = SignalFd [1, 15] (UniqueFd 3), lst = Listener (UniqueFd 4),
        ep = Epoll (UniqueFd 5), client = Some (Client (UniqueFd 6)), stop = True,
        out =
          [SysEpollWait 5,
           SysRecv 6 4096, Print [S ''Received '', N 5, S ('' bytes'' @ nl)],
           SysRecv 6 4096, Print [S (''Client closed connection'' @ nl)],
           SysEpollCtlDel 5 6, SysClose 6,
           SysEpollWait 5,
           SysEpollWait 5,
           SysAccept 4 6, Print [S (''New connection'' @ nl)],
           SysFcntlGetfl 6, SysFcntlSetfl 6 2050, SysEpollCtlAdd 5 6,
           Print [S (''This connection is now the active client'' @ nl)],
           SysAccept 4 7, Print [S (''New connection'' @ nl)],
           Print [S (''Active client already present, closing new'' @ nl)], SysClose 7,
           SysAccept 4 (- 1),
           SysEpollWait 5,
           SysRead 3, Print [S (''[signal] SIGTERM -> shutdown'' @ nl)], SysRead 3]\<rparr>)"
proof -
  let ?cl = "Client (UniqueFd 6)"
  have h: "client p_active = Some ?cl" "Client_fd ?cl \<noteq> - 1"
    "Client_fd ?cl \<noteq> SignalFd_fd (sfd p_active)"
    "Client_fd ?cl \<noteq> Listener_fd (lst p_active)"
    "Listener_fd (lst p_active) \<noteq> SignalFd_fd (sfd p_active)"
    "recv_q qs_reuse = [(5, 0)] @ (0, 0) # []"
    "\<forall>re\<in>set [(5, 0 :: int)]. (0 :: int) < fst re"
    "(0 :: int) = 0 \<or> ((0 :: int) < 0 \<and> (0 :: int) \<noteq> EAGAIN \<and> (0 :: int) \<noteq> EWOULDBLOCK)"
    "accept_q qs_reuse = 6 # [7] @ (- 1) # []"
    "(0 :: int) \<le> 6" "\<forall>x\<in>set [7 :: int]. 0 \<le> x" "(- 1 :: int) < 0"
    by (simp_all add: p_active_def qs_reuse_def Client_fd_def SignalFd_fd_def Listener_fd_def
        UniqueFd_get_def)
  note t = slot_reuse [OF h, where g = "\<lambda>_. 2" and fds = "[]" and mids = "[[]]"
      and wq = "[[3]]"]
  have idle: "\<not> stop p_active \<and>
      (\<forall>b\<in>set [[]]. SignalFd_fd (sfd p_active) \<notin> set b \<and>
         Listener_fd (lst p_active) \<notin> set b)"
    by (simp add: p_active_def)
  have a: "for_events (\<lambda>_. 2) [6, 4] qs_reuse p_active =
     Some (\<lparr>read_q = [(128, 15), (- 1, 0)], accept_q = [], recv_q = []\<rparr>,
       \<lparr>sfd = SignalFd [1, 15] (UniqueFd 3), lst = Listener (UniqueFd 4),
        ep = Epoll (UniqueFd 5), client = Some (Client (UniqueFd 6)), stop = False,
        out =
          [SysRecv 6 4096, Print [S ''Received '', N 5, S ('' bytes'' @ nl)],
           SysRecv 6 4096, Print [S (''Client closed connection'' @ nl)],
           SysEpollCtlDel 5 6, SysClose 6,
           SysAccept 4 6, Print [S (''New connection'' @ nl)],
           SysFcntlGetfl 6, SysFcntlSetfl 6 2050, SysEpollCtlAdd 5 6,
           Print [S (''This connection is now the active client'' @ nl)],
           SysAccept 4 7, Print [S (''New connection'' @ nl)],
           Print [S (''Active client already present, closing new'' @ nl)], SysClose 7,
           SysAccept 4 (- 1)]\<rparr>)"
    using t [THEN conjunct1]
    by (simp add: p_active_def qs_reuse_def removal_events_def admission_events_def
        recv_events_def drop_events_def admit_events_def reject_events_def Client_fd_def
        Listener_fd_def Epoll_fd_def UniqueFd_get_def O_NONBLOCK_def)
  have b: "while_loop (\<lambda>_. 2) [[6], [], [4], [3]] qs_reuse p_active =
     Some (\<lparr>read_q = [], accept_q = [], recv_q = []\<rparr>,
       \<lparr>sfd = SignalFd [1, 15] (UniqueFd 3), lst = Listener (UniqueFd 4),
        ep = Epoll (UniqueFd 5), client = Some (Client (UniqueFd 6)), stop = True,
        out =
          [SysEpollWait 5,
           SysRecv 6 4096, Print [S ''Received '', N 5, S ('' bytes'' @ nl)],
           SysRecv 6 4096, Print [S (''Client closed connection'' @ nl)],
           SysEpollCtlDel 5 6, SysClose 6,
           SysEpollWait 5,
           SysEpollWait 5,
           SysAccept 4 6, Print [S (''New connection'' @ nl)],
           SysFcntlGetfl 6, SysFcntlSetfl 6 2050, SysEpollCtlAdd 5 6,
           Print [S (''This connection is now the active client'' @ nl)],
           SysAccept 4 7, Print [S (''New connection'' @ nl)],
           Print [S (''Active client already present, closing new'' @ nl)], SysClose 7,
           SysAccept 4 (- 1),
           SysEpollWait 5,
           SysRead 3, Print [S (''[signal] SIGTERM -> shutdown'' @ nl)], SysRead 3]\<rparr>)"
    using t [THEN conjunct2, THEN conjunct1, THEN mp, OF idle]
    by (simp add: p_active_def qs_reuse_def removal_events_def admission_events_def run_eval)
  from a b show ?thesis by simp
qed

section \<open>Deregistration before release\<close>

text \<open>
  C5, as the claim states it, fails on the shutdown path: \<^verbatim>\<open>main\<close> never deregisters
  anything after the loop. A client connects, the termination signal arrives, and the
  destructor of the slot closes descriptor 6 while it is registered with the epoll
  instance 5, which is still open.
\<close>

theorem shutdown_with_client_counterexample:
  "main [''server''] env_ok [[4], [3]] qs_client_term = Some (0, trace_client_at_shutdown)
   \<and> \<not> dereg_before_close trace_client_at_shutdown"
proof -
  have "main [''server''] env_ok [[4], [3]] qs_client_term = Some (0, trace_client_at_shutdown)"
    by (simp add: run_eval env_ok_def qs_client_term_def trace_client_at_shutdown_def)
  moreover have "\<not> dereg_before_close trace_client_at_shutdown"
    by (simp add: dereg_before_close_def trace_client_at_shutdown_def track_step_def)
  ultimately show ?thesis by simp
qed

text \<open>
  C5, amended. On the path with exit code 1 every close is of an identifier that is not
  registered. On the path with exit code 0, in every run in which \<^verbatim>\<open>accept\<close> never
  returns a descriptor that is open, every close up to the last line is of an
  identifier that is not registered: the identifier of a removed connection is
  deregistered first, a rejected one was never registered. After the loop nothing is
  deregistered. The destructors close the connection, if there is one, then the epoll
  instance, the listener and the signal channel. With no connection left that order
  closes nothing registered, the three descriptors being distinct and the epoll instance
  going first; a connection still active is closed while registered.
\<close>

theorem deregistration_discipline:
  assumes su: "startup env (select_port argv) = ((s, l, e), tr3)"
  shows "(\<not> SignalFd_valid s \<or> \<not> Listener_valid l \<or> \<not> Epoll_valid e \<longrightarrow>
            main argv env wq qs =
              Some (1, tr3 @ closes [Epoll_fd e, Listener_fd l, SignalFd_fd s]) \<and>
            dereg_before_close (tr3 @ closes [Epoll_fd e, Listener_fd l, SignalFd_fd s]))
       \<and> (SignalFd_valid s \<and> Listener_valid l \<and> Epoll_valid e \<and>
          while_loop (fcntl_getfl_ret env) wq qs (loop_entry s l e (select_port argv) tr3)
            = Some (qs', p') \<and>
          accepts_fresh [SignalFd_fd s, Listener_fd l, Epoll_fd e] (out p') \<longrightarrow>
            dereg_before_close (out p' @ [Print [S (''Server stopped'' @ nl)]]) \<and>
            (client p' = None \<longrightarrow>
               main argv env wq qs =
                 Some (0, out p' @ [Print [S (''Server stopped'' @ nl)],
                            SysClose (Epoll_fd e), SysClose (Listener_fd l),
                            SysClose (SignalFd_fd s)]) \<and>
               (distinct [SignalFd_fd s, Listener_fd l, Epoll_fd e] \<longrightarrow>
                  dereg_before_close
                    (out p' @ [Print [S (''Server stopped'' @ nl)],
                               SysClose (Epoll_fd e), SysClose (Listener_fd l),
                               SysClose (SignalFd_fd s)]))) \<and>
            (\<forall>cl. client p' = Some cl \<longrightarrow>
               main argv env wq qs =
                 Some (0, out p' @ [Print [S (''Server stopped'' @ nl)],
                            SysClose (Client_fd cl),
                            SysClose (Epoll_fd e), SysClose (Listener_fd l),
                            SysClose (SignalFd_fd s)]) \<and>
               \<not> dereg_before_close
                   (out p' @ [Print [S (''Server stopped'' @ nl)], SysClose (Client_fd cl)])))"
proof -
  let ?sf = "SignalFd_fd s" and ?lf = "Listener_fd l" and ?ef = "Epoll_fd e"
  let ?stopped = "[S (''Server stopped'' @ nl)]"
  let ?held = "[?sf, ?lf, ?ef]"
  let ?p0 = "loop_entry s l e (select_port argv) tr3"
  have tr3: "tr3 = snd (startup env (select_port argv))" using su by simp
  have t3: "track [] tr3 = Some []" by (simp add: tr3 track_startup)
  have a: "main argv env wq qs = Some (1, tr3 @ closes [?ef, ?lf, ?sf]) \<and>
           dereg_before_close (tr3 @ closes [?ef, ?lf, ?sf])"
    if nv: "\<not> SignalFd_valid s \<or> \<not> Listener_valid l \<or> \<not> Epoll_valid e"
    using main_exit1_trace [OF su nv, of wq qs] t3 track_closes_empty [of "[?ef, ?lf, ?sf]"]
    by (simp add: dereg_before_close_def track_append)
  have b: "dereg_before_close (out p' @ [Print ?stopped]) \<and>
            (client p' = None \<longrightarrow>
               main argv env wq qs =
                 Some (0, out p' @ [Print ?stopped, SysClose ?ef, SysClose ?lf, SysClose ?sf]) \<and>
               (distinct ?held \<longrightarrow>
                  dereg_before_close
                    (out p' @ [Print ?stopped, SysClose ?ef, SysClose ?lf, SysClose ?sf]))) \<and>
            (\<forall>cl. client p' = Some cl \<longrightarrow>
               main argv env wq qs =
                 Some (0, out p' @ [Print ?stopped, SysClose (Client_fd cl),
                            SysClose ?ef, SysClose ?lf, SysClose ?sf]) \<and>
               \<not> dereg_before_close (out p' @ [Print ?stopped, SysClose (Client_fd cl)]))"
    if v: "SignalFd_valid s" "Listener_valid l" "Epoll_valid e"
      and wl: "while_loop (fcntl_getfl_ret env) wq qs ?p0 = Some (qs', p')"
      and fr: "accepts_fresh ?held (out p')"
  proof -
    from while_loop_static [OF wl] have
      st: "sfd p' = s" "lst p' = l" "ep p' = e" by (simp_all add: loop_entry_def Let_def)
    have p0: "sfd ?p0 = s" "lst ?p0 = l" "ep ?p0 = e" "client ?p0 = None"
      by (simp_all add: loop_entry_def Let_def)
    from v(2) startup_valid(2) [OF su] have "\<not> listener_failed env" by simp
    then have f3: "fresh_track ?held tr3 = Some ?held" by (simp add: tr3 fresh_track_startup)
    note e0 = loop_entry_tracks [OF t3 f3, of s l e "select_port argv"]
    from while_loop_steps [OF wl] obtain es where
      es: "out p' = out ?p0 @ es" "steps_ok ?ef ?sf ?lf None es (client p')"
      by (auto simp: p0)
    from fr obtain opn where "fresh_track ?held (out p') = Some opn"
      by (auto simp: accepts_fresh_def)
    then have fe: "fresh_track ?held es = Some opn"
      by (simp add: es(1) fresh_track_append e0(2))
    have i0: "reg_inv ?ef ?sf ?lf None [(?ef, ?lf), (?ef, ?sf)] ?held"
      by (simp add: reg_inv_def cset_def)
    from steps_okD [OF es(2) i0 fe] obtain R where
      "track [(?ef, ?lf), (?ef, ?sf)] es = Some R" and i: "reg_inv ?ef ?sf ?lf (client p') R opn"
      by blast
    then have t: "track [] (out p') = Some R"
      by (simp add: es(1) track_append e0(1))
    from v have ne: "?sf \<noteq> - 1" "?lf \<noteq> - 1" "?ef \<noteq> - 1"
      by (simp_all add: SignalFd_valid_def Listener_valid_def Epoll_valid_def UniqueFd_valid_def
          SignalFd_fd_def Listener_fd_def Epoll_fd_def UniqueFd_get_def)
    note m = main_exit0_trace [OF su v wl]
    have 1: "dereg_before_close (out p' @ [Print ?stopped])"
      using t by (simp add: dereg_before_close_def track_simps)
    have 2: "main argv env wq qs =
                 Some (0, out p' @ [Print ?stopped, SysClose ?ef, SysClose ?lf, SysClose ?sf]) \<and>
               (distinct ?held \<longrightarrow>
                  dereg_before_close
                    (out p' @ [Print ?stopped, SysClose ?ef, SysClose ?lf, SysClose ?sf]))"
      if c: "client p' = None"
    proof -
      from i c have i': "reg_inv ?ef ?sf ?lf None R opn" by simp
      have "dereg_before_close
              (out p' @ [Print ?stopped, SysClose ?ef, SysClose ?lf, SysClose ?sf])"
        if "distinct ?held"
        using track_final_no_client [OF t i' that, of ?stopped]
        by (simp add: dereg_before_close_def)
      with m c ne show ?thesis by (simp add: st closes_def)
    qed
    have 3: "main argv env wq qs =
                 Some (0, out p' @ [Print ?stopped, SysClose (Client_fd cl),
                            SysClose ?ef, SysClose ?lf, SysClose ?sf]) \<and>
               \<not> dereg_before_close (out p' @ [Print ?stopped, SysClose (Client_fd cl)])"
      if c: "client p' = Some cl" for cl
    proof -
      from i c have i': "reg_inv ?ef ?sf ?lf (Some cl) R opn" by simp
      then have "Client_fd cl \<noteq> - 1" by (simp add: reg_inv_def)
      with track_final_client [OF t i', of ?stopped] m c ne show ?thesis
        by (simp add: dereg_before_close_def st closes_def)
    qed
    from 1 2 3 show ?thesis by blast
  qed
  from a b show ?thesis by blast
qed


theorem deregistration_discipline_witness:
  "accepts_fresh [3, 4, 5] trace_client_reuse \<and> distinct [3, 4, 5 :: int]
   \<and> main [''server''] env_ok [[4], [6], [4], [6], [3]] qs_client_reuse =
       Some (0, trace_client_reuse @
                [Print [S (''Server stopped'' @ nl)], SysClose 5, SysClose 4, SysClose 3])
   \<and> dereg_before_close
       (trace_client_reuse @
        [Print [S (''Server stopped'' @ nl)], SysClose 5, SysClose 4, SysClose 3])
   \<and> main [''server''] env_bind_fail [[4]] qs_client_reuse =
       Some (1, [SysSigprocmaskBlock [1, 15], SysSignalfd [1, 15], SysSocket,
                 SysSetsockoptReuseaddr 4, SysBind 4 0 12345, SysClose 4, SysEpollCreate1,
                 SysClose 5, SysClose 3])
   \<and> dereg_before_close
       [SysSigprocmaskBlock [1, 15], SysSignalfd [1, 15], SysSocket,
        SysSetsockoptReuseaddr 4, SysBind 4 0 12345, SysClose 4, SysEpollCreate1,
        SysClose 5, SysClose 3]"
proof -
  let ?s = "SignalFd [1, 15] (UniqueFd 3)"
  let ?l = "Listener (UniqueFd 4)"
  let ?e = "Epoll (UniqueFd 5)"
  let ?argv = "[''server'']"
  let ?wq = "[[4], [6], [4], [6], [3 :: int]]"
  have port: "select_port ?argv = 12345" by (simp add: select_port_def)
  have fds: "SignalFd_fd ?s = 3" "Listener_fd ?l = 4" "Epoll_fd ?e = 5"
    "Listener_fd (Listener (UniqueFd (- 1))) = - 1"
    by (simp_all add: SignalFd_fd_def Listener_fd_def Epoll_fd_def UniqueFd_get_def)
  have d3: "distinct [3, 4, 5 :: int]" by simp
  have fr: "accepts_fresh [3, 4, 5] trace_client_reuse"
    by (simp add: accepts_fresh_def trace_client_reuse_def fresh_step_def)
  let ?tr3 = "snd (startup env_ok (select_port ?argv))"
  have su: "startup env_ok (select_port ?argv) = ((?s, ?l, ?e), ?tr3)"
    by (simp add: startup_env_ok)
  have v: "SignalFd_valid ?s" "Listener_valid ?l" "Epoll_valid ?e"
    by (simp_all add: SignalFd_valid_def Listener_valid_def Epoll_valid_def UniqueFd_valid_def)
  obtain qs' p' where wl: "while_loop (fcntl_getfl_ret env_ok) ?wq qs_client_reuse
        (loop_entry ?s ?l ?e (select_port ?argv) ?tr3) = Some (qs', p')"
    and c: "client p' = None"
    and o: "out p' = trace_client_reuse"
    by (simp add: port startup_env_ok)
       (simp add: run_eval env_ok_def qs_client_reuse_def trace_client_reuse_def)
  from fr o have fr': "accepts_fresh [3, 4, 5] (out p')" by simp
  note ok = deregistration_discipline [OF su, where qs = qs_client_reuse and wq = ?wq
      and qs' = qs' and p' = p', unfolded fds,
      THEN conjunct2, THEN mp, OF conjI [OF v(1) conjI [OF v(2) conjI [OF v(3) conjI [OF wl fr']]]],
      THEN conjunct2, THEN conjunct1, THEN mp, OF c]
  have m1: "main ?argv env_ok ?wq qs_client_reuse =
       Some (0, trace_client_reuse @
                [Print [S (''Server stopped'' @ nl)], SysClose 5, SysClose 4, SysClose 3])"
    using ok [THEN conjunct1] unfolding o .
  have t1: "dereg_before_close
       (trace_client_reuse @
        [Print [S (''Server stopped'' @ nl)], SysClose 5, SysClose 4, SysClose 3])"
    using ok [THEN conjunct2, THEN mp, OF d3] unfolding o .
  let ?lb = "Listener (UniqueFd (- 1))"
  let ?trb = "snd (startup env_bind_fail (select_port ?argv))"
  have sub: "startup env_bind_fail (select_port ?argv) = ((?s, ?lb, ?e), ?trb)"
    by (simp add: startup_env_bind_fail)
  have nv: "\<not> SignalFd_valid ?s \<or> \<not> Listener_valid ?lb \<or> \<not> Epoll_valid ?e"
    by (simp add: Listener_valid_def UniqueFd_valid_def)
  note bad = deregistration_discipline [OF sub, where qs = qs_client_reuse and wq = "[[4]]"
      and qs' = qs' and p' = p', unfolded fds, THEN conjunct1, THEN mp, OF nv]
  have tb: "?trb @ closes [5, - 1, 3] =
       [SysSigprocmaskBlock [1, 15], SysSignalfd [1, 15], SysSocket,
        SysSetsockoptReuseaddr 4, SysBind 4 0 12345, SysClose 4, SysEpollCreate1,
        SysClose 5, SysClose 3]"
    by (simp add: port startup_env_bind_fail closes_def)
  have m2: "main ?argv env_bind_fail [[4]] qs_client_reuse =
       Some (1, [SysSigprocmaskBlock [1, 15], SysSignalfd [1, 15], SysSocket,
                 SysSetsockoptReuseaddr 4, SysBind 4 0 12345, SysClose 4, SysEpollCreate1,
                 SysClose 5, SysClose 3])"
    and t2: "dereg_before_close
       [SysSigprocmaskBlock [1, 15], SysSignalfd [1, 15], SysSocket,
        SysSetsockoptReuseaddr 4, SysBind 4 0 12345, SysClose 4, SysEpollCreate1,
        SysClose 5, SysClose 3]"
    using bad unfolding tb by simp_all
  from fr d3 m1 t1 m2 t2 show ?thesis by simp
qed

section \<open>The port argument: results\<close>

text \<open>
  C9. The port depends on the first positional argument only. When the argument is
  there and the value \<^verbatim>\<open>atoi\<close> returns for it lies in 1 to 65535, that value is the
  port; when the argument is absent or the value is outside the range, the port is the
  default 12345. Further arguments change nothing, and the model has no other input the
  port could come from. The port selected is the one \<^verbatim>\<open>main\<close> binds the listening
  socket to: whenever \<^verbatim>\<open>socket\<close> succeeded, the trace of a finished run holds the
  \<^verbatim>\<open>bind\<close> on the wildcard address with that port.
\<close>

theorem select_port_cli:
  "(1 < length argv \<and> 0 < atoi (argv ! 1) \<and> atoi (argv ! 1) \<le> 65535
      \<longrightarrow> uint (select_port argv) = atoi (argv ! 1))
   \<and> (length argv \<le> 1 \<or> atoi (argv ! 1) \<le> 0 \<or> 65535 < atoi (argv ! 1)
      \<longrightarrow> select_port argv = 12345)
   \<and> select_port argv = select_port (take 2 argv)
   \<and> (main argv env wq qs = Some (code, tr) \<and> 0 \<le> socket_ret env
      \<longrightarrow> SysBind (socket_ret env) INADDR_ANY (select_port argv) \<in> set tr)"
proof -
  have "select_port argv = select_port (take 2 argv)"
    by (cases argv; cases "tl argv") (auto simp: select_port_def)
  moreover have "SysBind (socket_ret env) INADDR_ANY (select_port argv) \<in> set tr"
    if "main argv env wq qs = Some (code, tr)" "0 \<le> socket_ret env"
    using main_trace_startup [OF that(1)] startup_bind [OF that(2), of "select_port argv"]
    by blast
  moreover have "uint (select_port argv) = atoi (argv ! 1)"
    if "1 < length argv" "0 < atoi (argv ! 1)" "atoi (argv ! 1) \<le> 65535"
    using that by (simp add: select_port_def Let_def uint_word_of_int take_bit_eq_mod)
  moreover have "select_port argv = 12345"
    if "length argv \<le> 1 \<or> atoi (argv ! 1) \<le> 0 \<or> 65535 < atoi (argv ! 1)"
    using that by (auto simp: select_port_def Let_def)
  ultimately show ?thesis by blast
qed

theorem select_port_cli_witness:
  "atoi ''8080'' = 8080 \<and> uint (select_port [''server'', ''8080'']) = 8080
   \<and> select_port [''server''] = 12345
   \<and> atoi ''70000'' = 70000 \<and> select_port [''server'', ''70000''] = 12345
   \<and> select_port [''server'', ''8080'', ''x''] = select_port [''server'', ''8080'']
   \<and> main [''server'', ''8080''] env_bind_fail [] qs_term =
       Some (1, [SysSigprocmaskBlock [1, 15], SysSignalfd [1, 15], SysSocket,
                 SysSetsockoptReuseaddr 4, SysBind 4 0 8080, SysClose 4, SysEpollCreate1,
                 SysClose 5, SysClose 3])
   \<and> SysBind 4 INADDR_ANY 8080 \<in>
       set [SysSigprocmaskBlock [1, 15], SysSignalfd [1, 15], SysSocket,
            SysSetsockoptReuseaddr 4, SysBind 4 0 8080, SysClose 4, SysEpollCreate1,
            SysClose 5, SysClose 3]"
proof -
  let ?T = "[SysSigprocmaskBlock [1, 15], SysSignalfd [1, 15], SysSocket,
             SysSetsockoptReuseaddr 4, SysBind 4 0 8080, SysClose 4, SysEpollCreate1,
             SysClose 5, SysClose 3]"
  have a: "atoi ''8080'' = 8080" and b: "atoi ''70000'' = 70000"
    by (simp_all add: port_eval)
  have port: "select_port [''server'', ''8080''] = 8080"
    by (simp add: port_eval)
  have sock: "0 \<le> socket_ret env_bind_fail" "socket_ret env_bind_fail = 4"
    by (simp_all add: env_bind_fail_def env_ok_def)
  have m: "main [''server'', ''8080''] env_bind_fail [] qs_term = Some (1, ?T)"
    unfolding main_def port
    by (simp add: startup_env_bind_fail)
       (simp add: teardown_def SignalFd_dtor_def Listener_dtor_def Epoll_dtor_def
         client_reset_def UniqueFd_dtor_def UniqueFd_reset_def SignalFd_valid_def
         Listener_valid_def Epoll_valid_def UniqueFd_valid_def)
  have bind: "SysBind 4 INADDR_ANY 8080 \<in> set ?T"
    using select_port_cli [of "[''server'', ''8080'']" env_bind_fail "[]" qs_term 1 ?T,
        THEN conjunct2, THEN conjunct2, THEN conjunct2] m sock
    unfolding port by simp
  have rest: "uint (select_port [''server'', ''8080'']) = 8080
   \<and> select_port [''server''] = 12345
   \<and> select_port [''server'', ''70000''] = 12345
   \<and> select_port [''server'', ''8080'', ''x''] = select_port [''server'', ''8080'']"
    using select_port_cli [of "[''server'', ''8080'']" env_ok "[]" qs_term 0 "[]"]
      select_port_cli [of "[''server'']" env_ok "[]" qs_term 0 "[]"]
      select_port_cli [of "[''server'', ''70000'']" env_ok "[]" qs_term 0 "[]"]
      select_port_cli [of "[''server'', ''8080'', ''x'']" env_ok "[]" qs_term 0 "[]"] a b
    by simp
  from a b m bind rest show ?thesis by simp
qed




end
